theory Spec2Isabelle
  imports Main "HOL-Library.Multiset"
begin

section \<open>The program database: go/types, go/ast and go/packages values\<close>

text \<open>
  The tracer (internal/tracer/tracer.go) works on values produced by the Go libraries
  go/types, go/ast and golang.org/x/tools/go/packages. Only the parts of those values
  that tracer.go reads are kept. A pointer is represented by the value it points to; where
  the code compares pointers (the keys of \<open>typePkgMap\<close>, the identifiers of \<open>types.Info\<close>)
  the value carries what tells two objects apart (an address, a position).
\<close>

text \<open>\<open>*types.Package\<close>: distinct package objects may share a path, so the address is kept.\<close>

datatype types_Package = TypesPackage (addr: nat) (Path: string)

text \<open>
  The receiver of a method, as far as \<open>FullName\<close> reads it: an interface type that is
  not named (the receiver of the methods of an interface literal), or a named type,
  possibly behind a pointer, with its package (nil for a type of the universe such as
  \<open>error\<close>), its name and the printed list of its type arguments (empty if it has none).
\<close>

datatype Receiver = NoReceiver
  | InterfaceReceiver
  | NamedReceiver (rv_Pointer: bool) (rv_Pkg: "types_Package option") (rv_Name: string)
      (rv_TypeArgs: string)

text \<open>
  \<open>*types.Func\<close>: its package (nil for universe objects), its local name, its receiver
  when it is a method, and the position of its declaring identifier.
\<close>

datatype Func = Func (f_Pkg: "types_Package option") (f_Name: string)
  (f_Recv: Receiver) (f_Pos: int)

datatype TypeName = TypeName (t_Pkg: "types_Package option") (t_Name: string) (t_Pos: int)

text \<open>\<open>types.Object\<close>: a function, a type name, or any other kind (variable, constant, ...).\<close>

datatype Object = ObjFunc Func | ObjTypeName TypeName
  | ObjOther "types_Package option" string int

fun obj_Pkg :: "Object \<Rightarrow> types_Package option" where
  "obj_Pkg (ObjFunc f) = f_Pkg f"
| "obj_Pkg (ObjTypeName t) = t_Pkg t"
| "obj_Pkg (ObjOther p n pos) = p"

text \<open>
  \<open>packagePrefix\<close> of go/types without qualifier: the path of the package and a dot;
  nothing for a nil package or an empty path.
\<close>

definition packagePrefix :: "types_Package option \<Rightarrow> string" where
  "packagePrefix pkg =
     (case pkg of
        None \<Rightarrow> []
      | Some p \<Rightarrow> if Path p = [] then [] else Path p @ ''.'')"

text \<open>
  \<open>(*types.Func).FullName\<close> of go/types (\<open>writeFuncName\<close>). A method is printed with
  its receiver type in parentheses: the word \<open>interface\<close> for an interface type that is
  not named, and for a named type what \<open>WriteType\<close> prints, which is a star for a
  pointer, the package prefix of the type, its name and its type arguments. A function
  without receiver is printed with the prefix of its own package. Both are followed by
  the name; a dot follows the parentheses.
\<close>

definition FullName :: "Func \<Rightarrow> string" where
  "FullName f =
     (case f_Recv f of
        NoReceiver \<Rightarrow> packagePrefix (f_Pkg f) @ f_Name f
      | InterfaceReceiver \<Rightarrow> ''(interface).'' @ f_Name f
      | NamedReceiver pointer pkg name typeArgs \<Rightarrow>
          ''('' @ (if pointer then ''*'' else []) @ packagePrefix pkg @ name @ typeArgs @
          '').'' @ f_Name f)"

text \<open>\<open>*ast.Ident\<close>: two identifiers of a project differ in their position.\<close>

datatype Ident = Ident (NamePos: int) (IdName: string)

text \<open>A Go \<open>error\<close> value, by its message.\<close>

datatype error = Error (message: string)

datatype Token = token_TYPE | token_IMPORT | token_CONST | token_VAR

text \<open>
  \<open>ast.Node\<close>. The visitor of tracer.go acts on identifiers, and the snippet renderer
  looks for type specifications and the general declarations around them, at the top
  level of a file or in a declaration statement of a function body. These three kinds
  of node are kept:
  \<^item> \<open>*ast.Ident\<close>;
  \<^item> \<open>*ast.TypeSpec\<close> with its \<open>Name\<close>, its other children (type parameters and type)
    and what \<open>format.Node\<close> returns for it;
  \<^item> \<open>*ast.GenDecl\<close> with its \<open>Tok\<close>, its \<open>Specs\<close> and what \<open>format.Node\<close> returns
    for it.

  Every other kind of node is kept as the list of its children. Children are listed
  in the order \<open>ast.Walk\<close> walks them.
\<close>

datatype Node = IdentNode Ident
  | TypeSpecNode Ident "Node list" "error + string"
  | GenDeclNode Token "Node list" "error + string"
  | OtherNode "Node list"

text \<open>A run-time panic, which neither tracer.go nor its callers in cmd/ recover.\<close>

datatype panic = NilPointerDereference | TypeAssertionFailed

text \<open>
  \<open>*ast.FuncDecl\<close>: the name, the statements of the body (\<open>Body\<close> is nil for a function
  declared without body) and what \<open>format.Node\<close> returns for the declaration.
\<close>

datatype FuncDecl = FuncDecl (Name: Ident) (Body: "Node list option")
  (fd_Format: "error + string")

text \<open>
  A top-level declaration of a file: a function declaration, or any other declaration
  (a \<open>*ast.GenDecl\<close>, as a node).
\<close>

datatype Decl = FuncDeclD FuncDecl | OtherDecl Node

text \<open>
  \<open>*ast.File\<close> with its extent \<open>Pos()\<close> .. \<open>End()\<close>, and the name under which the file
  set (\<open>Fset\<close>) of the package knows the file.
\<close>

record File =
  FilePos :: int
  FileEnd :: int
  FileName :: string
  Decls :: "Decl list"

text \<open>\<open>*types.Info\<close>: the maps \<open>Defs\<close> and \<open>Uses\<close> from identifiers to objects.\<close>

record Info =
  Defs :: "(Ident \<times> Object) list"
  Uses :: "(Ident \<times> Object) list"

definition ObjectOf :: "Info \<Rightarrow> Ident \<Rightarrow> Object option" where
  "ObjectOf info ident =
     (case map_of (Defs info) ident of
        Some obj \<Rightarrow> Some obj
      | None \<Rightarrow> map_of (Uses info) ident)"

text \<open>\<open>*packages.Package\<close>.\<close>

record Package =
  PkgPath :: string
  Types :: "types_Package option"
  Syntax :: "File list"
  TypesInfo :: Info

section \<open>internal/tracer/types.go\<close>

record AnalysisTarget =
  Pkg :: Package
  Fn :: FuncDecl

record AnalysisTask =
  Target :: AnalysisTarget
  Depth :: int

record TypeInfo =
  ti_Name :: string
  ti_Definition :: TypeName
  ti_Snippet :: string

section \<open>The symbol classifier: \<open>resultCollector.Visit\<close>\<close>

record resultCollector =
  rc_Info :: Info
  ProjectPackages :: "string set"
  rc_CalledFuncs :: "Func list"
  rc_ReferencedTypes :: "TypeName list"

text \<open>
  \<open>Visit\<close> returns the visitor for the children (\<open>Some\<close> of the collector, as updated
  through the pointer receiver) or nil (\<open>None\<close>). \<open>ProjectPackages\<close> is a
  \<open>map[string]bool\<close> that only ever holds \<open>true\<close>, so it is the set of its keys.
\<close>

definition Visit :: "resultCollector \<Rightarrow> Node option \<Rightarrow> resultCollector option" where
  "Visit v node =
     (case node of
        None \<Rightarrow> None
      | Some (TypeSpecNode name children fmt) \<Rightarrow> Some v
      | Some (GenDeclNode tok specs fmt) \<Rightarrow> Some v
      | Some (OtherNode ns) \<Rightarrow> Some v
      | Some (IdentNode ident) \<Rightarrow>
          (case ObjectOf (rc_Info v) ident of
             None \<Rightarrow> Some v
           | Some obj \<Rightarrow>
               (case obj_Pkg obj of
                  None \<Rightarrow> Some v
                | Some p \<Rightarrow>
                    if Path p \<notin> ProjectPackages v then Some v
                    else (case obj of
                            ObjFunc f \<Rightarrow> Some (v\<lparr>rc_CalledFuncs := rc_CalledFuncs v @ [f]\<rparr>)
                          | ObjTypeName t \<Rightarrow>
                              Some (v\<lparr>rc_ReferencedTypes := rc_ReferencedTypes v @ [t]\<rparr>)
                          | ObjOther p' n pos \<Rightarrow> Some v))))"

text \<open>
  \<open>ast.Walk\<close> of go/ast: \<open>Visit\<close> the node; if the result is not nil, walk the children
  with it in order and finish with \<open>Visit(nil)\<close>, which changes nothing here. The first
  child of a type specification is its name.
\<close>

fun Walk :: "resultCollector \<Rightarrow> Node \<Rightarrow> resultCollector" where
  "Walk v (IdentNode ident) =
     (case Visit v (Some (IdentNode ident)) of None \<Rightarrow> v | Some v' \<Rightarrow> v')"
| "Walk v (TypeSpecNode name children fmt) =
     (case Visit v (Some (TypeSpecNode name children fmt)) of
        None \<Rightarrow> v
      | Some v' \<Rightarrow>
          fold (\<lambda>child w. Walk w child) children
            (case Visit v' (Some (IdentNode name)) of None \<Rightarrow> v' | Some v'' \<Rightarrow> v''))"
| "Walk v (GenDeclNode tok specs fmt) =
     (case Visit v (Some (GenDeclNode tok specs fmt)) of
        None \<Rightarrow> v
      | Some v' \<Rightarrow> fold (\<lambda>child w. Walk w child) specs v')"
| "Walk v (OtherNode ns) =
     (case Visit v (Some (OtherNode ns)) of
        None \<Rightarrow> v
      | Some v' \<Rightarrow> fold (\<lambda>child w. Walk w child) ns v')"

text \<open>
  \<open>ast.Walk(collector, currentTask.Target.Fn.Body)\<close>. The argument is a
  \<open>*ast.BlockStmt\<close> stored in an \<open>ast.Node\<close> interface. For a function without body it is
  a nil pointer inside a non-nil interface: \<open>Visit\<close> sees \<open>node != nil\<close>, finds no
  identifier and returns the visitor; \<open>ast.Walk\<close> then reads \<open>n.List\<close> of the nil
  \<open>*ast.BlockStmt\<close>, which panics.
\<close>

definition WalkBody :: "resultCollector \<Rightarrow> Node list option \<Rightarrow> panic + resultCollector" where
  "WalkBody v body =
     (case body of
        None \<Rightarrow> Inl NilPointerDereference
      | Some stmts \<Rightarrow> Inr (Walk v (OtherNode stmts)))"

section \<open>The source locator: \<open>findFuncDeclAt\<close>\<close>

text \<open>
  \<open>ast.Inspect\<close> over one file with the closure of \<open>findFuncDeclAt\<close>: every function
  declaration whose name is at \<open>pos\<close> overwrites \<open>foundNode\<close>; the closure returns false
  there, which only prunes the walk below that declaration. Function declarations
  only occur at the top level of a file.
\<close>

definition inspectFuncDecl :: "Decl list \<Rightarrow> int \<Rightarrow> FuncDecl option" where
  "inspectFuncDecl decls pos =
     fold (\<lambda>d foundNode.
             case d of
               FuncDeclD fn \<Rightarrow> if NamePos (Name fn) = pos then Some fn else foundNode
             | OtherDecl n \<Rightarrow> foundNode)
          decls None"

fun findFuncDeclIn :: "File list \<Rightarrow> int \<Rightarrow> FuncDecl option" where
  "findFuncDeclIn [] pos = None"
| "findFuncDeclIn (fileAST # files) pos =
     (if FilePos fileAST \<le> pos \<and> pos < FileEnd fileAST
      then (case inspectFuncDecl (Decls fileAST) pos of
              Some foundNode \<Rightarrow> Some foundNode
            | None \<Rightarrow> findFuncDeclIn files pos)
      else findFuncDeclIn files pos)"

definition findFuncDeclAt :: "Package \<Rightarrow> int \<Rightarrow> FuncDecl option" where
  "findFuncDeclAt pkg pos = findFuncDeclIn (Syntax pkg) pos"

section \<open>The traversal scheduler: \<open>performRecursiveAnalysis\<close>\<close>

text \<open>
  A Go map with string keys is represented by the list of its entries, with lookup
  \<open>map_of\<close>. An entry is only ever added for a key that is absent, at the end of the
  list. The order of the list is not part of the Go map: the only operation of the
  program that enumerates a map is \<open>range\<close>, modelled by \<open>go_range\<close> below, which
  may yield the entries in any order.
\<close>

type_synonym 'v go_map = "(string \<times> 'v) list"

definition go_range :: "'v go_map \<Rightarrow> (string \<times> 'v) list \<Rightarrow> bool" where
  "go_range m entries \<longleftrightarrow> mset entries = mset m"

text \<open>
  \<open>projectPackages\<close> and \<open>typePkgMap\<close> (lines 59-66). \<open>typePkgMap\<close> is keyed by
  \<open>*types.Package\<close> pointers; a later package of \<open>pkgs\<close> with the same \<open>Types\<close>
  overwrites an earlier one, so the newest entry is put in front for \<open>map_of\<close>.
\<close>

definition projectPackages_of :: "Package list \<Rightarrow> string set" where
  "projectPackages_of pkgs = set (map PkgPath pkgs)"

definition typePkgMap_of :: "Package list \<Rightarrow> (types_Package \<times> Package) list" where
  "typePkgMap_of pkgs =
     fold (\<lambda>p m. case Types p of None \<Rightarrow> m | Some tp \<Rightarrow> (tp, p) # m) pkgs []"

text \<open>The variables of the loop of \<open>performRecursiveAnalysis\<close> (lines 68-73).\<close>

record traversal =
  queue :: "AnalysisTask list"
  processedFuncs :: "string set"
  allCalledFuncs :: "Func go_map"
  allReferencedTypes :: "TypeInfo go_map"

text \<open>
  One pass of the loop over \<open>collector.CalledFuncs\<close> (lines 95-111), on the pair of
  \<open>allCalledFuncs\<close> and \<open>queue\<close>. \<open>fun.Pkg().Path()\<close> is evaluated only when
  \<open>currentTask.Depth < depth\<close> holds, and panics for a nil package.
\<close>

definition recordFunc ::
  "int \<Rightarrow> string set \<Rightarrow> (types_Package \<times> Package) list \<Rightarrow> int \<Rightarrow> Func \<Rightarrow>
   Func go_map \<times> AnalysisTask list \<Rightarrow> panic + Func go_map \<times> AnalysisTask list" where
  "recordFunc depth projectPackages typePkgMap curDepth fn acc =
     (case acc of (allCalled, q) \<Rightarrow>
        let funKey = FullName fn in
        (case map_of allCalled funKey of
           Some existing \<Rightarrow> Inr (allCalled, q)
         | None \<Rightarrow>
             let allCalled' = allCalled @ [(funKey, fn)] in
             if curDepth < depth then
               (case f_Pkg fn of
                  None \<Rightarrow> Inl NilPointerDereference
                | Some tp \<Rightarrow>
                    if Path tp \<in> projectPackages then
                      (case map_of typePkgMap tp of
                         None \<Rightarrow> Inr (allCalled', q)
                       | Some defPkg \<Rightarrow>
                           (case findFuncDeclAt defPkg (f_Pos fn) of
                              None \<Rightarrow> Inr (allCalled', q)
                            | Some defNode \<Rightarrow>
                                Inr (allCalled',
                                     q @ [\<lparr>Target = \<lparr>Pkg = defPkg, Fn = defNode\<rparr>,
                                           Depth = curDepth + 1\<rparr>])))
                    else Inr (allCalled', q))
             else Inr (allCalled', q)))"

text \<open>A \<open>for\<close> loop over a slice whose body may panic.\<close>

fun forEach :: "('a \<Rightarrow> 's \<Rightarrow> panic + 's) \<Rightarrow> 'a list \<Rightarrow> 's \<Rightarrow> panic + 's" where
  "forEach body [] s = Inr s"
| "forEach body (x # xs) s =
     (case body x s of Inl p \<Rightarrow> Inl p | Inr s' \<Rightarrow> forEach body xs s')"

text \<open>
  One pass of the loop over \<open>collector.ReferencedTypes\<close> (lines 114-120);
  \<open>typeObj.Pkg().Path()\<close> panics for a nil package. The field \<open>Snippet\<close> is left at its
  zero value.
\<close>

definition recordType :: "TypeName \<Rightarrow> TypeInfo go_map \<Rightarrow> panic + TypeInfo go_map" where
  "recordType typeObj allTypes =
     (case t_Pkg typeObj of
        None \<Rightarrow> Inl NilPointerDereference
      | Some tp \<Rightarrow>
          let typeKey = Path tp @ ''.'' @ t_Name typeObj in
          (case map_of allTypes typeKey of
             Some existing \<Rightarrow> Inr allTypes
           | None \<Rightarrow>
               Inr (allTypes @
                    [(typeKey, \<lparr>ti_Name = typeKey, ti_Definition = typeObj,
                                ti_Snippet = []\<rparr>)])))"

text \<open>
  The body of the \<open>for len(queue) > 0\<close> loop (lines 76-121), for a non-empty queue.
  A panic ends the program, so no state is returned with it. \<open>Depth\<close> is a Go \<open>int\<close>;
  it is modelled without overflow, since it is bounded by the number of tasks created.
\<close>

definition loopBody ::
  "int \<Rightarrow> string set \<Rightarrow> (types_Package \<times> Package) list \<Rightarrow> traversal \<Rightarrow>
   panic + traversal" where
  "loopBody depth projectPackages typePkgMap s =
     (case queue s of
        [] \<Rightarrow> Inr s
      | currentTask # rest \<Rightarrow>
          (case ObjectOf (TypesInfo (Pkg (Target currentTask)))
                         (Name (Fn (Target currentTask))) of
             None \<Rightarrow> Inr (s\<lparr>queue := rest\<rparr>)
           | Some (ObjTypeName t) \<Rightarrow> Inl TypeAssertionFailed
           | Some (ObjOther p n pos) \<Rightarrow> Inl TypeAssertionFailed
           | Some (ObjFunc fnObj) \<Rightarrow>
               let fnKey = FullName fnObj in
               if fnKey \<in> processedFuncs s then Inr (s\<lparr>queue := rest\<rparr>)
               else
                 (case WalkBody \<lparr>rc_Info = TypesInfo (Pkg (Target currentTask)),
                                 ProjectPackages = projectPackages,
                                 rc_CalledFuncs = [], rc_ReferencedTypes = []\<rparr>
                                (Body (Fn (Target currentTask))) of
                    Inl p \<Rightarrow> Inl p
                  | Inr collector \<Rightarrow>
                      (case forEach (recordFunc depth projectPackages typePkgMap
                                       (Depth currentTask))
                                    (rc_CalledFuncs collector) (allCalledFuncs s, rest) of
                         Inl p \<Rightarrow> Inl p
                       | Inr (allCalled', queue') \<Rightarrow>
                           (case forEach recordType (rc_ReferencedTypes collector)
                                         (allReferencedTypes s) of
                              Inl p \<Rightarrow> Inl p
                            | Inr allTypes' \<Rightarrow>
                                Inr \<lparr>queue = queue',
                                     processedFuncs = insert fnKey (processedFuncs s),
                                     allCalledFuncs = allCalled',
                                     allReferencedTypes = allTypes'\<rparr>)))))"

text \<open>
  The loop itself. Whether it ends is not assumed: \<open>None\<close> stands for a loop that
  runs forever, \<open>Some (Inl p)\<close> for a panic, \<open>Some (Inr s)\<close> for the state at the exit.
\<close>

partial_function (option) runQueue ::
  "int \<Rightarrow> string set \<Rightarrow> (types_Package \<times> Package) list \<Rightarrow> traversal \<Rightarrow>
   (panic + traversal) option" where
  "runQueue depth projectPackages typePkgMap s =
     (if queue s = [] then Some (Inr s)
      else (case loopBody depth projectPackages typePkgMap s of
              Inl p \<Rightarrow> Some (Inl p)
            | Inr s' \<Rightarrow> runQueue depth projectPackages typePkgMap s'))"

declare runQueue.simps [code]

record analysisResult =
  CalledFuncs :: "Func go_map"
  ReferencedTypes :: "TypeInfo go_map"

definition initialTraversal :: "AnalysisTarget \<Rightarrow> traversal" where
  "initialTraversal initialTarget =
     \<lparr>queue = [\<lparr>Target = initialTarget, Depth = 0\<rparr>], processedFuncs = {},
      allCalledFuncs = [], allReferencedTypes = []\<rparr>"

text \<open>
  \<open>performRecursiveAnalysis\<close> returns the result and a Go \<open>error\<close> (\<open>None\<close> is nil).
\<close>

definition performRecursiveAnalysis ::
  "AnalysisTarget \<Rightarrow> int \<Rightarrow> Package list \<Rightarrow>
   (panic + analysisResult \<times> error option) option" where
  "performRecursiveAnalysis initialTarget depth pkgs =
     (case runQueue depth (projectPackages_of pkgs) (typePkgMap_of pkgs)
                    (initialTraversal initialTarget) of
        None \<Rightarrow> None
      | Some (Inl p) \<Rightarrow> Some (Inl p)
      | Some (Inr s) \<Rightarrow>
          Some (Inr (\<lparr>CalledFuncs = allCalledFuncs s,
                      ReferencedTypes = allReferencedTypes s\<rparr>, None)))"

section \<open>The snippet renderer: \<open>getFuncSourceSnippet\<close>, \<open>getTypeSourceSnippet\<close>\<close>

text \<open>The verb \<open>%d\<close> of \<open>fmt\<close> on an integer: its decimal digits.\<close>

function digits :: "nat \<Rightarrow> string" where
  "digits n = (if n < 10 then [''0123456789'' ! n]
               else digits (n div 10) @ [''0123456789'' ! (n mod 10)])"
  by pat_completeness auto
termination
  by (relation "measure (\<lambda>n. n)") auto

definition itoa :: "int \<Rightarrow> string" where
  "itoa i = (if i < 0 then ''-'' @ digits (nat (- i)) else digits (nat i))"

definition getFuncSourceSnippet :: "Package \<Rightarrow> int \<Rightarrow> error + string" where
  "getFuncSourceSnippet pkg pos =
     (case findFuncDeclAt pkg pos of
        None \<Rightarrow> Inl (Error (''could not find FuncDecl node at position '' @ itoa pos))
      | Some node \<Rightarrow> fd_Format node)"

text \<open>
  \<open>ast.Inspect\<close> with the closure of \<open>getTypeSourceSnippet\<close> walks the whole file,
  function bodies included. Every type specification whose name is at \<open>pos\<close> overwrites
  \<open>foundNode\<close>, and the walk does not go below it. With the specification is kept what
  \<open>astutil.PathEnclosingInterval\<close> returns for it and the code reads: the general
  declarations on the path from the specification to the file, innermost first, each
  with its token and what \<open>format.Node\<close> returns for it.
\<close>

type_synonym foundTypeSpec = "(error + string) \<times> (Token \<times> (error + string)) list"

fun inspectTypeSpecNode ::
  "int \<Rightarrow> (Token \<times> (error + string)) list \<Rightarrow> Node \<Rightarrow> foundTypeSpec option \<Rightarrow>
   foundTypeSpec option" where
  "inspectTypeSpecNode pos path (IdentNode ident) foundNode = foundNode"
| "inspectTypeSpecNode pos path (TypeSpecNode name children fmt) foundNode =
     (if NamePos name = pos then Some (fmt, path)
      else fold (\<lambda>child found. inspectTypeSpecNode pos path child found) children foundNode)"
| "inspectTypeSpecNode pos path (GenDeclNode tok specs fmt) foundNode =
     fold (\<lambda>child found. inspectTypeSpecNode pos ((tok, fmt) # path) child found)
          specs foundNode"
| "inspectTypeSpecNode pos path (OtherNode ns) foundNode =
     fold (\<lambda>child found. inspectTypeSpecNode pos path child found) ns foundNode"

text \<open>
  The walk over the declarations of a file. Of a function declaration only the body
  can hold type specifications; \<open>ast.Walk\<close> skips a nil body.
\<close>

definition inspectTypeSpec :: "Decl list \<Rightarrow> int \<Rightarrow> foundTypeSpec option" where
  "inspectTypeSpec decls pos =
     fold (\<lambda>d foundNode.
             case d of
               FuncDeclD fn \<Rightarrow>
                 (case Body fn of
                    None \<Rightarrow> foundNode
                  | Some stmts \<Rightarrow>
                      fold (\<lambda>stmt found. inspectTypeSpecNode pos [] stmt found)
                           stmts foundNode)
             | OtherDecl n \<Rightarrow> inspectTypeSpecNode pos [] n foundNode)
          decls None"

text \<open>
  The node that is printed: the first \<open>*ast.GenDecl\<close> with token \<open>TYPE\<close> on the path
  from the specification to the file; the specification itself if there is none.
\<close>

definition formatTypeSpec :: "foundTypeSpec \<Rightarrow> error + string" where
  "formatTypeSpec found =
     (case found of (fmt, path) \<Rightarrow>
        (case filter (\<lambda>pnode. fst pnode = token_TYPE) path of
           [] \<Rightarrow> fmt
         | gd # rest \<Rightarrow> snd gd))"

fun typeSnippetIn :: "File list \<Rightarrow> int \<Rightarrow> error + string" where
  "typeSnippetIn [] pos =
     Inl (Error (''could not find TypeSpec node at position '' @ itoa pos))"
| "typeSnippetIn (fileAST # files) pos =
     (if FilePos fileAST \<le> pos \<and> pos < FileEnd fileAST
      then (case inspectTypeSpec (Decls fileAST) pos of
              Some found \<Rightarrow> formatTypeSpec found
            | None \<Rightarrow> typeSnippetIn files pos)
      else typeSnippetIn files pos)"

text \<open>The package is a pointer that \<open>Analyze\<close> may pass as nil; \<open>pkg.Syntax\<close> then panics.\<close>

definition getTypeSourceSnippet :: "Package option \<Rightarrow> int \<Rightarrow> panic + (error + string)" where
  "getTypeSourceSnippet pkg pos =
     (case pkg of
        None \<Rightarrow> Inl NilPointerDereference
      | Some p \<Rightarrow> Inr (typeSnippetIn (Syntax p) pos))"

text \<open>
  \<open>pkg.Fset.File(pos).Name()\<close>: the file set knows the files of \<open>Syntax\<close>, with the same
  extents; a position in no file gives a nil \<open>*token.File\<close>, on which \<open>Name\<close> panics.
\<close>

definition fileNameAt :: "Package \<Rightarrow> int \<Rightarrow> panic + string" where
  "fileNameAt pkg pos =
     (case filter (\<lambda>f. FilePos f \<le> pos \<and> pos < FileEnd f) (Syntax pkg) of
        [] \<Rightarrow> Inl NilPointerDereference
      | f # fs \<Rightarrow> Inr (FileName f))"

section \<open>The report builder: \<open>Analyze\<close>, \<open>ExtractTypes\<close>, \<open>ExtractCalledFuncs\<close>\<close>

definition newline :: string where
  "newline = [CHR 0x0A]"

definition snippetHeader :: "string \<Rightarrow> string \<Rightarrow> string \<Rightarrow> string" where
  "snippetHeader name file snippet =
     newline @ ''// Source for: '' @ name @ newline @
     ''// Defined in: '' @ file @ newline @
     ''// --------------------------------------------------'' @ newline @
     snippet @ newline"

text \<open>The body of the loop over \<open>results.CalledFuncs\<close> of lines 178-190.\<close>

definition writeFuncSnippet ::
  "(types_Package \<times> Package) list \<Rightarrow> string \<times> Func \<Rightarrow> string \<Rightarrow> panic + string" where
  "writeFuncSnippet typePkgMap entry report =
     (case entry of (name, fn) \<Rightarrow>
        (case (case f_Pkg fn of None \<Rightarrow> None | Some tp \<Rightarrow> map_of typePkgMap tp) of
           None \<Rightarrow> Inr report
         | Some defPkg \<Rightarrow>
             (case getFuncSourceSnippet defPkg (f_Pos fn) of
                Inl err \<Rightarrow> Inr report
              | Inr snippet \<Rightarrow>
                  (case fileNameAt defPkg (f_Pos fn) of
                     Inl p \<Rightarrow> Inl p
                   | Inr file \<Rightarrow> Inr (report @ snippetHeader name file snippet)))))"

text \<open>The body of the loop over \<open>results.ReferencedTypes\<close> of lines 194-203.\<close>

definition writeTypeSnippet ::
  "(types_Package \<times> Package) list \<Rightarrow> string \<times> TypeInfo \<Rightarrow> string \<Rightarrow> panic + string" where
  "writeTypeSnippet typePkgMap entry report =
     (case entry of (name, info) \<Rightarrow>
        let defPkg = (case t_Pkg (ti_Definition info) of
                        None \<Rightarrow> None
                      | Some tp \<Rightarrow> map_of typePkgMap tp) in
        (case getTypeSourceSnippet defPkg (t_Pos (ti_Definition info)) of
           Inl p \<Rightarrow> Inl p
         | Inr (Inl err) \<Rightarrow> Inr report
         | Inr (Inr snippet) \<Rightarrow>
             (case defPkg of
                None \<Rightarrow> Inl NilPointerDereference
              | Some dp \<Rightarrow>
                  (case fileNameAt dp (t_Pos (ti_Definition info)) of
                     Inl p \<Rightarrow> Inl p
                   | Inr file \<Rightarrow> Inr (report @ snippetHeader name file snippet)))))"

text \<open>
  \<open>Analyze\<close> enumerates each of the two result maps twice with \<open>range\<close>. The order of
  each enumeration is chosen by the Go run time; the four orders are made a parameter.
\<close>

record rangeOrders =
  summaryFuncs :: "(string \<times> Func) list"
  summaryTypes :: "(string \<times> TypeInfo) list"
  snippetFuncs :: "(string \<times> Func) list"
  snippetTypes :: "(string \<times> TypeInfo) list"

definition rangeOrders_of :: "analysisResult \<Rightarrow> rangeOrders \<Rightarrow> bool" where
  "rangeOrders_of results orders \<longleftrightarrow>
     go_range (CalledFuncs results) (summaryFuncs orders) \<and>
     go_range (ReferencedTypes results) (summaryTypes orders) \<and>
     go_range (CalledFuncs results) (snippetFuncs orders) \<and>
     go_range (ReferencedTypes results) (snippetTypes orders)"

definition nameLines :: "string list \<Rightarrow> string" where
  "nameLines names = concat (map (\<lambda>name. ''- '' @ name @ newline) names)"

text \<open>
  The part of \<open>Analyze\<close> after the traversal, for given orders: first the header, the
  source of the target and the summary (lines 145-176) ...
\<close>

definition reportSummary ::
  "rangeOrders \<Rightarrow> AnalysisTarget \<Rightarrow> string \<Rightarrow> int \<Rightarrow> analysisResult \<Rightarrow> string" where
  "reportSummary orders initialTarget initialFile depth results =
     ''Analysis for Function: '' @ IdName (Name (Fn initialTarget)) @
     '' (depth='' @ itoa depth @ '')'' @ newline @
     ''Defined in: '' @ initialFile @ newline @
     newline @ ''--- Target Function Source Code ---'' @ newline @
     (case getFuncSourceSnippet (Pkg initialTarget) (NamePos (Name (Fn initialTarget))) of
        Inl err \<Rightarrow> ''// Error getting source: '' @ message err @ newline
      | Inr initialSnippet \<Rightarrow> initialSnippet @ newline) @
     newline @ ''--- Summary of Dependencies ---'' @ newline @
     ''Called Functions/Methods:'' @ newline @
     (if CalledFuncs results \<noteq> []
      then nameLines (map fst (summaryFuncs orders))
      else ''- None'' @ newline) @
     newline @ ''Referenced Types:'' @ newline @
     (if ReferencedTypes results \<noteq> []
      then nameLines (map fst (summaryTypes orders))
      else ''- None'' @ newline) @
     newline @ ''--- Code Snippets of Dependencies ---'' @ newline"

text \<open>... then the two loops that write the snippets of the dependencies (lines 177-205).\<close>

definition buildReport ::
  "rangeOrders \<Rightarrow> AnalysisTarget \<Rightarrow> string \<Rightarrow> int \<Rightarrow> Package list \<Rightarrow> analysisResult \<Rightarrow>
   panic + string" where
  "buildReport orders initialTarget initialFile depth pkgs results =
     (let typePkgMap = typePkgMap_of pkgs
      in case forEach (writeFuncSnippet typePkgMap) (snippetFuncs orders)
                      (reportSummary orders initialTarget initialFile depth results) of
           Inl p \<Rightarrow> Inl p
         | Inr report \<Rightarrow> forEach (writeTypeSnippet typePkgMap) (snippetTypes orders) report)"

text \<open>
  The outcomes of an entry point: \<open>None\<close> if the traversal does not end, a panic, or the
  returned pair of value and error. Each entry point has one outcome for every order
  in which \<open>range\<close> may enumerate the result maps.
\<close>

type_synonym 'a outcome = "(panic + 'a \<times> error option) option"

definition Analyze ::
  "AnalysisTarget \<Rightarrow> string \<Rightarrow> int \<Rightarrow> Package list \<Rightarrow> string outcome set" where
  "Analyze initialTarget initialFile depth pkgs =
     (case performRecursiveAnalysis initialTarget depth pkgs of
        None \<Rightarrow> {None}
      | Some (Inl p) \<Rightarrow> {Some (Inl p)}
      | Some (Inr (results, Some err)) \<Rightarrow> {Some (Inr ([], Some err))}
      | Some (Inr (results, None)) \<Rightarrow>
          {Some (case buildReport orders initialTarget initialFile depth pkgs results of
                   Inl p \<Rightarrow> Inl p
                 | Inr report \<Rightarrow> Inr (report, None)) | orders.
           rangeOrders_of results orders})"

definition ExtractTypes ::
  "AnalysisTarget \<Rightarrow> int \<Rightarrow> Package list \<Rightarrow> string list outcome set" where
  "ExtractTypes target depth pkgs =
     (case performRecursiveAnalysis target depth pkgs of
        None \<Rightarrow> {None}
      | Some (Inl p) \<Rightarrow> {Some (Inl p)}
      | Some (Inr (results, Some err)) \<Rightarrow> {Some (Inr ([], Some err))}
      | Some (Inr (results, None)) \<Rightarrow>
          {Some (Inr (map fst entries, None)) | entries.
           go_range (ReferencedTypes results) entries})"

definition ExtractCalledFuncs ::
  "AnalysisTarget \<Rightarrow> int \<Rightarrow> Package list \<Rightarrow> string list outcome set" where
  "ExtractCalledFuncs target depth pkgs =
     (case performRecursiveAnalysis target depth pkgs of
        None \<Rightarrow> {None}
      | Some (Inl p) \<Rightarrow> {Some (Inl p)}
      | Some (Inr (results, Some err)) \<Rightarrow> {Some (Inr ([], Some err))}
      | Some (Inr (results, None)) \<Rightarrow>
          {Some (Inr (map fst entries, None)) | entries.
           go_range (CalledFuncs results) entries})"

section \<open>Notions used to state the properties\<close>

text \<open>The identifiers below a node, in the order of a pre-order walk.\<close>

fun idents :: "Node \<Rightarrow> Ident list" where
  "idents (IdentNode ident) = [ident]"
| "idents (TypeSpecNode name children fmt) = name # concat (map idents children)"
| "idents (GenDeclNode tok specs fmt) = concat (map idents specs)"
| "idents (OtherNode ns) = concat (map idents ns)"

text \<open>
  The direct references of a body, as the specification of the classifier describes
  them: every identifier is resolved; an identifier that does not resolve, or that
  resolves to a symbol without package or with a package outside the scope, is
  skipped; the others are listed per kind, in the order of the walk, with duplicates.
\<close>

definition callableRef :: "Info \<Rightarrow> string set \<Rightarrow> Ident \<Rightarrow> Func list" where
  "callableRef info scope ident =
     (case ObjectOf info ident of
        Some (ObjFunc f) \<Rightarrow>
          (case f_Pkg f of Some p \<Rightarrow> if Path p \<in> scope then [f] else [] | None \<Rightarrow> [])
      | Some (ObjTypeName t) \<Rightarrow> []
      | Some (ObjOther p n pos) \<Rightarrow> []
      | None \<Rightarrow> [])"

definition typeRef :: "Info \<Rightarrow> string set \<Rightarrow> Ident \<Rightarrow> TypeName list" where
  "typeRef info scope ident =
     (case ObjectOf info ident of
        Some (ObjTypeName t) \<Rightarrow>
          (case t_Pkg t of Some p \<Rightarrow> if Path p \<in> scope then [t] else [] | None \<Rightarrow> [])
      | Some (ObjFunc f) \<Rightarrow> []
      | Some (ObjOther p n pos) \<Rightarrow> []
      | None \<Rightarrow> [])"

definition directCallables :: "Info \<Rightarrow> string set \<Rightarrow> Node list \<Rightarrow> Func list" where
  "directCallables info scope body =
     concat (map (callableRef info scope) (concat (map idents body)))"

definition directTypes :: "Info \<Rightarrow> string set \<Rightarrow> Node list \<Rightarrow> TypeName list" where
  "directTypes info scope body =
     concat (map (typeRef info scope) (concat (map idents body)))"

text \<open>A collector after it has visited the given identifiers.\<close>

definition collected :: "resultCollector \<Rightarrow> Ident list \<Rightarrow> resultCollector" where
  "collected v ids =
     v\<lparr>rc_CalledFuncs := rc_CalledFuncs v @
          concat (map (callableRef (rc_Info v) (ProjectPackages v)) ids),
       rc_ReferencedTypes := rc_ReferencedTypes v @
          concat (map (typeRef (rc_Info v) (ProjectPackages v)) ids)\<rparr>"

text \<open>
  The measure of the loop. The candidates of a target are the callables the classifier
  finds in its body; the universe of a state holds the names of the candidates of the
  queued targets and of every function declaration of the packages of \<open>typePkgMap\<close>,
  the only targets the loop can still create.
\<close>

definition candidates :: "string set \<Rightarrow> AnalysisTarget \<Rightarrow> Func list" where
  "candidates scope t =
     (case Body (Fn t) of
        None \<Rightarrow> []
      | Some stmts \<Rightarrow> directCallables (TypesInfo (Pkg t)) scope stmts)"

definition declsOf :: "Package \<Rightarrow> FuncDecl list" where
  "declsOf p =
     concat (map (\<lambda>file. concat (map (\<lambda>d. case d of FuncDeclD fn \<Rightarrow> [fn]
                                              | OtherDecl n \<Rightarrow> [])
                                      (Decls file)))
                 (Syntax p))"

definition declTargets :: "(types_Package \<times> Package) list \<Rightarrow> AnalysisTarget list" where
  "declTargets typePkgMap =
     concat (map (\<lambda>entry. map (\<lambda>fn. \<lparr>Pkg = snd entry, Fn = fn\<rparr>) (declsOf (snd entry)))
                 typePkgMap)"

definition universe ::
  "string set \<Rightarrow> (types_Package \<times> Package) list \<Rightarrow> AnalysisTask list \<Rightarrow> string set" where
  "universe scope typePkgMap q =
     FullName ` (\<Union>t \<in> Target ` set q \<union> set (declTargets typePkgMap).
                   set (candidates scope t))"

definition remaining ::
  "string set \<Rightarrow> (types_Package \<times> Package) list \<Rightarrow> traversal \<Rightarrow> nat" where
  "remaining scope typePkgMap s =
     card (universe scope typePkgMap (queue s) - fst ` set (allCalledFuncs s)) +
     length (queue s)"

text \<open>The keys of a Go map: the names a result set holds.\<close>

definition namesOf :: "'v go_map \<Rightarrow> string set" where
  "namesOf m = fst ` set m"

text \<open>The error an entry point returns, when it returns.\<close>

fun returnedError :: "'a outcome \<Rightarrow> error option" where
  "returnedError (Some (Inr (v, err))) = err"
| "returnedError (Some (Inl p)) = None"
| "returnedError None = None"

text \<open>
  The key of a type in the type result set (line 114), and the identity of a task in
  the visited set (lines 78-82): the full name of the function its declaration
  resolves to.
\<close>

definition typeKey :: "TypeName \<Rightarrow> string" where
  "typeKey t = (case t_Pkg t of Some p \<Rightarrow> Path p @ ''.'' @ t_Name t | None \<Rightarrow> t_Name t)"

definition taskKey :: "AnalysisTask \<Rightarrow> string" where
  "taskKey t =
     (case ObjectOf (TypesInfo (Pkg (Target t))) (Name (Fn (Target t))) of
        Some (ObjFunc fnObj) \<Rightarrow> FullName fnObj
      | Some (ObjTypeName tn) \<Rightarrow> []
      | Some (ObjOther p n pos) \<Rightarrow> []
      | None \<Rightarrow> [])"

text \<open>
  The task a pass of the loop expands, if any: the task at the head of the queue when
  it resolves to a function that is not yet in the visited set, so that the pass
  reaches the walk over its body (line 92).
\<close>

definition expandedTask :: "traversal \<Rightarrow> AnalysisTask list" where
  "expandedTask s =
     (case queue s of
        [] \<Rightarrow> []
      | currentTask # rest \<Rightarrow>
          (case ObjectOf (TypesInfo (Pkg (Target currentTask)))
                         (Name (Fn (Target currentTask))) of
             Some (ObjFunc fnObj) \<Rightarrow>
               if FullName fnObj \<in> processedFuncs s then [] else [currentTask]
           | Some (ObjTypeName tn) \<Rightarrow> []
           | Some (ObjOther p n pos) \<Rightarrow> []
           | None \<Rightarrow> []))"

text \<open>
  The tasks a run of the loop expands, in order. It follows the loop step by step and
  is not part of the program.
\<close>

partial_function (option) expansionLog ::
  "int \<Rightarrow> string set \<Rightarrow> (types_Package \<times> Package) list \<Rightarrow> traversal \<Rightarrow>
   AnalysisTask list option" where
  "expansionLog depth projectPackages typePkgMap s =
     (if queue s = [] then Some []
      else (case loopBody depth projectPackages typePkgMap s of
              Inl p \<Rightarrow> Some (expandedTask s)
            | Inr s' \<Rightarrow>
                Option.bind (expansionLog depth projectPackages typePkgMap s')
                  (\<lambda>log. Some (expandedTask s @ log))))"

declare expansionLog.simps [code]

text \<open>
  The target is the declaration the locator finds for the callable: the callable's
  package path is in the scope, its package is a key of \<open>typePkgMap\<close>, and the target
  is the mapped package with the declaration found at the callable's position.
\<close>

definition declaredBy ::
  "string set \<Rightarrow> (types_Package \<times> Package) list \<Rightarrow> Func \<Rightarrow> AnalysisTarget \<Rightarrow> bool" where
  "declaredBy scope typePkgMap f t =
     (case f_Pkg f of
        None \<Rightarrow> False
      | Some tp \<Rightarrow>
          Path tp \<in> scope \<and> map_of typePkgMap tp = Some (Pkg t) \<and>
          findFuncDeclAt (Pkg t) (f_Pos f) = Some (Fn t))"

text \<open>No name is recorded twice.\<close>

definition distinctKeys :: "traversal \<Rightarrow> bool" where
  "distinctKeys s \<longleftrightarrow>
     distinct (map fst (allCalledFuncs s)) \<and> distinct (map fst (allReferencedTypes s))"

text \<open>
  The task was created for a recorded callable; every recorded symbol is recorded
  under its key and belongs to a package of the scope.
\<close>

definition fromCallable ::
  "string set \<Rightarrow> (types_Package \<times> Package) list \<Rightarrow> Func go_map \<Rightarrow> AnalysisTask \<Rightarrow> bool" where
  "fromCallable scope typePkgMap called t \<longleftrightarrow>
     (\<exists>f. (FullName f, f) \<in> set called \<and> declaredBy scope typePkgMap f (Target t))"

definition recordedInScope :: "string set \<Rightarrow> traversal \<Rightarrow> bool" where
  "recordedInScope scope s \<longleftrightarrow>
     (\<forall>e \<in> set (allCalledFuncs s). fst e = FullName (snd e) \<and>
        (\<exists>p. f_Pkg (snd e) = Some p \<and> Path p \<in> scope)) \<and>
     (\<forall>e \<in> set (allReferencedTypes s). fst e = typeKey (ti_Definition (snd e)) \<and>
        (\<exists>p. t_Pkg (ti_Definition (snd e)) = Some p \<and> Path p \<in> scope))"

text \<open>
  What the report holds for one dependency: the labelled block with its snippet when
  the declaration is located and printed, and nothing otherwise. A type is handled
  without panic when its package is a key of \<open>typePkgMap\<close>.
\<close>

definition funcBlock :: "(types_Package \<times> Package) list \<Rightarrow> string \<times> Func \<Rightarrow> string" where
  "funcBlock typePkgMap entry =
     (case entry of (name, fn) \<Rightarrow>
        (case (case f_Pkg fn of None \<Rightarrow> None | Some tp \<Rightarrow> map_of typePkgMap tp) of
           None \<Rightarrow> []
         | Some defPkg \<Rightarrow>
             (case getFuncSourceSnippet defPkg (f_Pos fn) of
                Inl err \<Rightarrow> []
              | Inr snippet \<Rightarrow>
                  (case fileNameAt defPkg (f_Pos fn) of
                     Inl p \<Rightarrow> []
                   | Inr file \<Rightarrow> snippetHeader name file snippet))))"

definition typeBlock :: "(types_Package \<times> Package) list \<Rightarrow> string \<times> TypeInfo \<Rightarrow> string" where
  "typeBlock typePkgMap entry =
     (case entry of (name, info) \<Rightarrow>
        (case (case t_Pkg (ti_Definition info) of None \<Rightarrow> None
               | Some tp \<Rightarrow> map_of typePkgMap tp) of
           None \<Rightarrow> []
         | Some defPkg \<Rightarrow>
             (case typeSnippetIn (Syntax defPkg) (t_Pos (ti_Definition info)) of
                Inl err \<Rightarrow> []
              | Inr snippet \<Rightarrow>
                  (case fileNameAt defPkg (t_Pos (ti_Definition info)) of
                     Inl p \<Rightarrow> []
                   | Inr file \<Rightarrow> snippetHeader name file snippet))))"

definition packageLoaded :: "(types_Package \<times> Package) list \<Rightarrow> string \<times> TypeInfo \<Rightarrow> bool" where
  "packageLoaded typePkgMap entry =
     (case t_Pkg (ti_Definition (snd entry)) of
        None \<Rightarrow> False
      | Some tp \<Rightarrow> map_of typePkgMap tp \<noteq> None)"

text \<open>
  The declaration of a target defines the given function object, as go/types records
  it in \<open>Defs\<close>.
\<close>

definition resolvesTo :: "AnalysisTarget \<Rightarrow> Func \<Rightarrow> bool" where
  "resolvesTo t f \<longleftrightarrow> ObjectOf (TypesInfo (Pkg t)) (Name (Fn t)) = Some (ObjFunc f)"

text \<open>The number of entries a result set holds under a name.\<close>

definition occurrences :: "string \<Rightarrow> 'v go_map \<Rightarrow> nat" where
  "occurrences name m = length (filter (\<lambda>e. fst e = name) m)"



text \<open>
  The texts that make up a full name. An identifier of Go is not empty and holds no
  dot, bracket, star or parenthesis; an import path holds no bracket, star or
  parenthesis; a printed list of type arguments is empty or begins with a bracket.
\<close>

definition identifierText :: "string \<Rightarrow> bool" where
  "identifierText s \<longleftrightarrow>
     s \<noteq> [] \<and> (\<forall>c \<in> set s. c \<noteq> CHR ''.'' \<and> c \<noteq> CHR ''['' \<and> c \<noteq> CHR ''*'' \<and> c \<noteq> CHR ''('')"

definition pathText :: "string \<Rightarrow> bool" where
  "pathText s \<longleftrightarrow> (\<forall>c \<in> set s. c \<noteq> CHR ''['' \<and> c \<noteq> CHR ''*'' \<and> c \<noteq> CHR ''('')"

definition typeArgsText :: "string \<Rightarrow> bool" where
  "typeArgsText s \<longleftrightarrow> s = [] \<or> hd s = CHR ''[''"

text \<open>
  The full name of the callable is qualified by the package \<open>p\<close>: the callable belongs to
  \<open>p\<close> and is a package-level function, or a method whose receiver is a named type of
  \<open>p\<close> (a method is declared in the package of its receiver type); and its texts are
  well formed. A method of an interface type that is not named is not qualified by any
  package.
\<close>

definition qualifiedBy :: "Func \<Rightarrow> types_Package \<Rightarrow> bool" where
  "qualifiedBy f p \<longleftrightarrow>
     f_Pkg f = Some p \<and> pathText (Path p) \<and> identifierText (f_Name f) \<and>
     (case f_Recv f of
        NoReceiver \<Rightarrow> True
      | InterfaceReceiver \<Rightarrow> False
      | NamedReceiver pointer pkg name typeArgs \<Rightarrow>
          pkg = Some p \<and> identifierText name \<and> typeArgsText typeArgs)"

text \<open>The printed receiver type of a method, without its type arguments.\<close>

definition receiverText :: "bool \<Rightarrow> types_Package option \<Rightarrow> string \<Rightarrow> string" where
  "receiverText pointer pkg name = (if pointer then ''*'' else []) @ packagePrefix pkg @ name"
section \<open>Example projects\<close>

text \<open>
  A project with one package \<open>p\<close> and one file: \<open>A\<close> calls \<open>B\<close> and \<open>C\<close> and
  refers to the type \<open>T\<close>; \<open>B\<close> calls \<open>D\<close> and refers to the type \<open>U\<close>; \<open>C\<close> and \<open>D\<close>
  refer to nothing.
\<close>

definition scen_types :: types_Package where
  "scen_types = TypesPackage 1 ''p''"

definition scen_A :: Func where "scen_A = Func (Some scen_types) ''A'' NoReceiver 10"
definition scen_B :: Func where "scen_B = Func (Some scen_types) ''B'' NoReceiver 20"
definition scen_C :: Func where "scen_C = Func (Some scen_types) ''C'' NoReceiver 30"
definition scen_D :: Func where "scen_D = Func (Some scen_types) ''D'' NoReceiver 40"
definition scen_T :: TypeName where "scen_T = TypeName (Some scen_types) ''T'' 50"
definition scen_U :: TypeName where "scen_U = TypeName (Some scen_types) ''U'' 60"

definition scen_declA :: FuncDecl where
  "scen_declA = FuncDecl (Ident 10 ''A'')
     (Some [OtherNode [IdentNode (Ident 11 ''B''), IdentNode (Ident 12 ''T'')],
            OtherNode [IdentNode (Ident 13 ''C'')]])
     (Inr ''func A() { B(T{}); C() }'')"

definition scen_declB :: FuncDecl where
  "scen_declB = FuncDecl (Ident 20 ''B'')
     (Some [OtherNode [IdentNode (Ident 21 ''D''), IdentNode (Ident 22 ''U'')]])
     (Inr ''func B(t T) { D(U{}) }'')"

definition scen_declC :: FuncDecl where
  "scen_declC = FuncDecl (Ident 30 ''C'') (Some []) (Inr ''func C() {}'')"

definition scen_declD :: FuncDecl where
  "scen_declD = FuncDecl (Ident 40 ''D'') (Some []) (Inr ''func D(u U) {}'')"

definition scen_info :: Info where
  "scen_info =
     \<lparr>Defs = [(Ident 10 ''A'', ObjFunc scen_A), (Ident 20 ''B'', ObjFunc scen_B),
              (Ident 30 ''C'', ObjFunc scen_C), (Ident 40 ''D'', ObjFunc scen_D),
              (Ident 50 ''T'', ObjTypeName scen_T), (Ident 60 ''U'', ObjTypeName scen_U)],
      Uses = [(Ident 11 ''B'', ObjFunc scen_B), (Ident 12 ''T'', ObjTypeName scen_T),
              (Ident 13 ''C'', ObjFunc scen_C), (Ident 21 ''D'', ObjFunc scen_D),
              (Ident 22 ''U'', ObjTypeName scen_U)]\<rparr>"

definition scen_file :: File where
  "scen_file =
     \<lparr>FilePos = 1, FileEnd = 100, FileName = ''a.go'',
      Decls = [FuncDeclD scen_declA, FuncDeclD scen_declB, FuncDeclD scen_declC,
               FuncDeclD scen_declD,
               OtherDecl (GenDeclNode token_TYPE [TypeSpecNode (Ident 50 ''T'') [] (Inr ''T struct{}'')]
                 (Inr ''type T struct{}'')),
               OtherDecl (GenDeclNode token_TYPE [TypeSpecNode (Ident 60 ''U'') [] (Inr ''U struct{}'')]
                 (Inr ''type U struct{}''))]\<rparr>"

definition scen_pkg :: Package where
  "scen_pkg = \<lparr>PkgPath = ''p'', Types = Some scen_types, Syntax = [scen_file],
               TypesInfo = scen_info\<rparr>"

definition scen_target :: AnalysisTarget where
  "scen_target = \<lparr>Pkg = scen_pkg, Fn = scen_declA\<rparr>"

definition scen_typeInfo :: "TypeName \<Rightarrow> string \<times> TypeInfo" where
  "scen_typeInfo t =
     (''p.'' @ t_Name t, \<lparr>ti_Name = ''p.'' @ t_Name t, ti_Definition = t, ti_Snippet = []\<rparr>)"

definition scen_direct :: analysisResult where
  "scen_direct = \<lparr>CalledFuncs = [(''p.B'', scen_B), (''p.C'', scen_C)],
                  ReferencedTypes = [scen_typeInfo scen_T]\<rparr>"

definition scen_all :: analysisResult where
  "scen_all = \<lparr>CalledFuncs = [(''p.B'', scen_B), (''p.C'', scen_C), (''p.D'', scen_D)],
               ReferencedTypes = [scen_typeInfo scen_T, scen_typeInfo scen_U]\<rparr>"

text \<open>
  A project in which \<open>F\<close> is declared without a body (its code is in an assembly
  file) and \<open>G\<close> calls \<open>F\<close>.
\<close>

definition asm_types :: types_Package where
  "asm_types = TypesPackage 1 ''p''"

definition asm_F :: Func where "asm_F = Func (Some asm_types) ''F'' NoReceiver 10"
definition asm_G :: Func where "asm_G = Func (Some asm_types) ''G'' NoReceiver 20"

definition asm_declF :: FuncDecl where
  "asm_declF = FuncDecl (Ident 10 ''F'') None (Inr ''func F()'')"

definition asm_declG :: FuncDecl where
  "asm_declG = FuncDecl (Ident 20 ''G'') (Some [OtherNode [IdentNode (Ident 21 ''F'')]])
     (Inr ''func G() { F() }'')"

definition asm_pkg :: Package where
  "asm_pkg =
     \<lparr>PkgPath = ''p'', Types = Some asm_types,
      Syntax = [\<lparr>FilePos = 1, FileEnd = 100, FileName = ''f.go'',
                 Decls = [FuncDeclD asm_declF, FuncDeclD asm_declG]\<rparr>],
      TypesInfo = \<lparr>Defs = [(Ident 10 ''F'', ObjFunc asm_F), (Ident 20 ''G'', ObjFunc asm_G)],
                   Uses = [(Ident 21 ''F'', ObjFunc asm_F)]\<rparr>\<rparr>"












text \<open>
  A project with the package \<open>p\<close> only, in which \<open>M\<close> refers to \<open>fmt.Println\<close>, to its
  own helper \<open>H\<close>, to the types \<open>bytes.Buffer\<close> and \<open>p.Conf\<close>, to the built-in \<open>len\<close>
  and to a local variable.
\<close>

definition ext_types :: types_Package where "ext_types = TypesPackage 1 ''p''"
definition ext_fmt :: types_Package where "ext_fmt = TypesPackage 2 ''fmt''"
definition ext_bytes :: types_Package where "ext_bytes = TypesPackage 3 ''bytes''"

definition ext_M :: Func where "ext_M = Func (Some ext_types) ''M'' NoReceiver 10"
definition ext_H :: Func where "ext_H = Func (Some ext_types) ''H'' NoReceiver 30"
definition ext_Println :: Func where "ext_Println = Func (Some ext_fmt) ''Println'' NoReceiver 5000"
definition ext_Conf :: TypeName where "ext_Conf = TypeName (Some ext_types) ''Conf'' 40"
definition ext_Buffer :: TypeName where "ext_Buffer = TypeName (Some ext_bytes) ''Buffer'' 7000"

definition ext_declM :: FuncDecl where
  "ext_declM = FuncDecl (Ident 10 ''M'')
     (Some [OtherNode [IdentNode (Ident 11 ''fmt''), IdentNode (Ident 12 ''Println''),
                       IdentNode (Ident 13 ''len''), IdentNode (Ident 14 ''x'')],
            OtherNode [IdentNode (Ident 15 ''H''), IdentNode (Ident 16 ''Buffer''),
                       IdentNode (Ident 17 ''Conf'')]])
     (Inr ''func M(x []int) { fmt.Println(len(x)); H(bytes.Buffer{}, Conf{}) }'')"

definition ext_declH :: FuncDecl where
  "ext_declH = FuncDecl (Ident 30 ''H'') (Some []) (Inr ''func H(b bytes.Buffer, c Conf) {}'')"

definition ext_pkg :: Package where
  "ext_pkg =
     \<lparr>PkgPath = ''p'', Types = Some ext_types,
      Syntax = [\<lparr>FilePos = 1, FileEnd = 100, FileName = ''m.go'',
                 Decls = [FuncDeclD ext_declM, FuncDeclD ext_declH,
                          OtherDecl (GenDeclNode token_TYPE
                            [TypeSpecNode (Ident 40 ''Conf'') [] (Inr ''Conf struct{}'')]
                            (Inr ''type Conf struct{}''))]\<rparr>],
      TypesInfo =
        \<lparr>Defs = [(Ident 10 ''M'', ObjFunc ext_M), (Ident 30 ''H'', ObjFunc ext_H),
                 (Ident 40 ''Conf'', ObjTypeName ext_Conf)],
         Uses = [(Ident 11 ''fmt'', ObjOther (Some ext_types) ''fmt'' 2),
                 (Ident 12 ''Println'', ObjFunc ext_Println),
                 (Ident 13 ''len'', ObjOther None ''len'' 0),
                 (Ident 14 ''x'', ObjOther (Some ext_types) ''x'' 9),
                 (Ident 15 ''H'', ObjFunc ext_H),
                 (Ident 16 ''Buffer'', ObjTypeName ext_Buffer),
                 (Ident 17 ''Conf'', ObjTypeName ext_Conf)]\<rparr>\<rparr>"

definition ext_target :: AnalysisTarget where
  "ext_target = \<lparr>Pkg = ext_pkg, Fn = ext_declM\<rparr>"

definition ext_result :: analysisResult where
  "ext_result =
     \<lparr>CalledFuncs = [(''p.H'', ext_H)],
      ReferencedTypes = [(''p.Conf'', \<lparr>ti_Name = ''p.Conf'', ti_Definition = ext_Conf,
                                       ti_Snippet = []\<rparr>)]\<rparr>"

definition ext_collector :: resultCollector where
  "ext_collector = \<lparr>rc_Info = TypesInfo ext_pkg, ProjectPackages = {''p''},
                     rc_CalledFuncs = [], rc_ReferencedTypes = []\<rparr>"

definition scen_task :: "FuncDecl \<Rightarrow> int \<Rightarrow> AnalysisTask" where
  "scen_task d n = \<lparr>Target = \<lparr>Pkg = scen_pkg, Fn = d\<rparr>, Depth = n\<rparr>"

text \<open>The state of the traversal of \<open>A\<close> with depth 2 after the first pass of the loop.\<close>

definition scen_afterA :: traversal where
  "scen_afterA =
     \<lparr>queue = [scen_task scen_declB 1, scen_task scen_declC 1], processedFuncs = {''p.A''},
      allCalledFuncs = [(''p.B'', scen_B), (''p.C'', scen_C)],
      allReferencedTypes = [scen_typeInfo scen_T]\<rparr>"

text \<open>
  A project with three packages: \<open>a\<close> and \<open>b\<close> each declare a function \<open>Run\<close> and a
  type \<open>Conf\<close>; \<open>Main\<close> in package \<open>m\<close> calls both functions and refers to both types.
\<close>

definition col_typesM :: types_Package where "col_typesM = TypesPackage 1 ''m''"
definition col_typesA :: types_Package where "col_typesA = TypesPackage 2 ''a''"
definition col_typesB :: types_Package where "col_typesB = TypesPackage 3 ''b''"

definition col_Main :: Func where "col_Main = Func (Some col_typesM) ''Main'' NoReceiver 10"
definition col_RunA :: Func where "col_RunA = Func (Some col_typesA) ''Run'' NoReceiver 110"
definition col_RunB :: Func where "col_RunB = Func (Some col_typesB) ''Run'' NoReceiver 210"
definition col_ConfA :: TypeName where "col_ConfA = TypeName (Some col_typesA) ''Conf'' 120"
definition col_ConfB :: TypeName where "col_ConfB = TypeName (Some col_typesB) ''Conf'' 220"

definition col_bodyMain :: "Node list" where
  "col_bodyMain =
     [OtherNode [IdentNode (Ident 11 ''Run''), IdentNode (Ident 12 ''Conf'')],
      OtherNode [IdentNode (Ident 13 ''Run''), IdentNode (Ident 14 ''Conf'')]]"

definition col_declMain :: FuncDecl where
  "col_declMain = FuncDecl (Ident 10 ''Main'') (Some col_bodyMain)
     (Inr ''func Main() { a.Run(a.Conf{}); b.Run(b.Conf{}) }'')"

definition col_declRunA :: FuncDecl where
  "col_declRunA = FuncDecl (Ident 110 ''Run'') (Some []) (Inr ''func Run(c Conf) {}'')"

definition col_declRunB :: FuncDecl where
  "col_declRunB = FuncDecl (Ident 210 ''Run'') (Some []) (Inr ''func Run(c Conf) {}'')"

definition col_pkgM :: Package where
  "col_pkgM =
     \<lparr>PkgPath = ''m'', Types = Some col_typesM,
      Syntax = [\<lparr>FilePos = 1, FileEnd = 100, FileName = ''m/main.go'',
                 Decls = [FuncDeclD col_declMain]\<rparr>],
      TypesInfo = \<lparr>Defs = [(Ident 10 ''Main'', ObjFunc col_Main)],
                   Uses = [(Ident 11 ''Run'', ObjFunc col_RunA),
                           (Ident 12 ''Conf'', ObjTypeName col_ConfA),
                           (Ident 13 ''Run'', ObjFunc col_RunB),
                           (Ident 14 ''Conf'', ObjTypeName col_ConfB)]\<rparr>\<rparr>"

definition col_pkgA :: Package where
  "col_pkgA =
     \<lparr>PkgPath = ''a'', Types = Some col_typesA,
      Syntax = [\<lparr>FilePos = 101, FileEnd = 200, FileName = ''a/run.go'',
                 Decls = [FuncDeclD col_declRunA,
                          OtherDecl (GenDeclNode token_TYPE
                            [TypeSpecNode (Ident 120 ''Conf'') [] (Inr ''Conf struct{}'')]
                            (Inr ''type Conf struct{}''))]\<rparr>],
      TypesInfo = \<lparr>Defs = [(Ident 110 ''Run'', ObjFunc col_RunA),
                           (Ident 120 ''Conf'', ObjTypeName col_ConfA)],
                   Uses = []\<rparr>\<rparr>"

definition col_pkgB :: Package where
  "col_pkgB =
     \<lparr>PkgPath = ''b'', Types = Some col_typesB,
      Syntax = [\<lparr>FilePos = 201, FileEnd = 300, FileName = ''b/run.go'',
                 Decls = [FuncDeclD col_declRunB,
                          OtherDecl (GenDeclNode token_TYPE
                            [TypeSpecNode (Ident 220 ''Conf'') [] (Inr ''Conf struct{}'')]
                            (Inr ''type Conf struct{}''))]\<rparr>],
      TypesInfo = \<lparr>Defs = [(Ident 210 ''Run'', ObjFunc col_RunB),
                           (Ident 220 ''Conf'', ObjTypeName col_ConfB)],
                   Uses = []\<rparr>\<rparr>"

definition col_pkgs :: "Package list" where
  "col_pkgs = [col_pkgM, col_pkgA, col_pkgB]"

definition col_target :: AnalysisTarget where
  "col_target = \<lparr>Pkg = col_pkgM, Fn = col_declMain\<rparr>"

definition col_taskMain :: AnalysisTask where
  "col_taskMain = \<lparr>Target = col_target, Depth = 0\<rparr>"

definition col_taskA :: AnalysisTask where
  "col_taskA = \<lparr>Target = \<lparr>Pkg = col_pkgA, Fn = col_declRunA\<rparr>, Depth = 1\<rparr>"

definition col_taskB :: AnalysisTask where
  "col_taskB = \<lparr>Target = \<lparr>Pkg = col_pkgB, Fn = col_declRunB\<rparr>, Depth = 1\<rparr>"

definition col_result :: analysisResult where
  "col_result =
     \<lparr>CalledFuncs = [(''a.Run'', col_RunA), (''b.Run'', col_RunB)],
      ReferencedTypes =
        [(''a.Conf'', \<lparr>ti_Name = ''a.Conf'', ti_Definition = col_ConfA, ti_Snippet = []\<rparr>),
         (''b.Conf'', \<lparr>ti_Name = ''b.Conf'', ti_Definition = col_ConfB, ti_Snippet = []\<rparr>)]\<rparr>"

definition col_final :: traversal where
  "col_final =
     \<lparr>queue = [], processedFuncs = {''b.Run'', ''a.Run'', ''m.Main''},
      allCalledFuncs = CalledFuncs col_result,
      allReferencedTypes = ReferencedTypes col_result\<rparr>"

text \<open>
  A project in which \<open>A\<close> calls \<open>B\<close> and refers to the type \<open>T\<close>, both of package \<open>p\<close>
  and both declared at positions that are in no file of \<open>Syntax\<close>.
\<close>

definition deg_types :: types_Package where "deg_types = TypesPackage 1 ''p''"

definition deg_A :: Func where "deg_A = Func (Some deg_types) ''A'' NoReceiver 10"
definition deg_B :: Func where "deg_B = Func (Some deg_types) ''B'' NoReceiver 150"
definition deg_T :: TypeName where "deg_T = TypeName (Some deg_types) ''T'' 160"

definition deg_declA :: FuncDecl where
  "deg_declA = FuncDecl (Ident 10 ''A'')
     (Some [OtherNode [IdentNode (Ident 11 ''B''), IdentNode (Ident 12 ''T'')]])
     (Inr ''func A() { B(T{}) }'')"

definition deg_pkg :: Package where
  "deg_pkg =
     \<lparr>PkgPath = ''p'', Types = Some deg_types,
      Syntax = [\<lparr>FilePos = 1, FileEnd = 100, FileName = ''a.go'',
                 Decls = [FuncDeclD deg_declA]\<rparr>],
      TypesInfo = \<lparr>Defs = [(Ident 10 ''A'', ObjFunc deg_A)],
                   Uses = [(Ident 11 ''B'', ObjFunc deg_B),
                           (Ident 12 ''T'', ObjTypeName deg_T)]\<rparr>\<rparr>"

definition deg_target :: AnalysisTarget where
  "deg_target = \<lparr>Pkg = deg_pkg, Fn = deg_declA\<rparr>"

definition deg_file :: string where "deg_file = ''a.go''"

definition deg_entryB :: "string \<times> Func" where
  "deg_entryB = (''p.B'', deg_B)"

definition deg_entryT :: "string \<times> TypeInfo" where
  "deg_entryT = (''p.T'', \<lparr>ti_Name = ''p.T'', ti_Definition = deg_T, ti_Snippet = []\<rparr>)"

definition deg_result :: analysisResult where
  "deg_result = \<lparr>CalledFuncs = [deg_entryB], ReferencedTypes = [deg_entryT]\<rparr>"

definition deg_orders :: rangeOrders where
  "deg_orders = \<lparr>summaryFuncs = [deg_entryB], summaryTypes = [deg_entryT],
                 snippetFuncs = [deg_entryB], snippetTypes = [deg_entryT]\<rparr>"

definition deg_report :: string where
  "deg_report =
     ''Analysis for Function: A (depth=0)\<newline>Defined in: a.go\<newline>\<newline>--- Target Function Source Code ---\<newline>func A() { B(T{}) }\<newline>\<newline>--- Summary of Dependencies ---\<newline>Called Functions/Methods:\<newline>- p.B\<newline>\<newline>Referenced Types:\<newline>- p.T\<newline>\<newline>--- Code Snippets of Dependencies ---\<newline>''"

text \<open>
  A project in which \<open>A\<close> declares the type \<open>L\<close> in its body and uses it there.
\<close>

definition loc_types :: types_Package where "loc_types = TypesPackage 1 ''p''"

definition loc_A :: Func where "loc_A = Func (Some loc_types) ''A'' NoReceiver 10"
definition loc_L :: TypeName where "loc_L = TypeName (Some loc_types) ''L'' 12"

definition loc_declA :: FuncDecl where
  "loc_declA = FuncDecl (Ident 10 ''A'')
     (Some [OtherNode [GenDeclNode token_TYPE
                         [TypeSpecNode (Ident 12 ''L'') [OtherNode []] (Inr ''L struct{}'')]
                         (Inr ''type L struct{}'')],
            OtherNode [IdentNode (Ident 14 ''L'')]])
     (Inr ''func A() { type L struct{}; _ = L{} }'')"

definition loc_pkg :: Package where
  "loc_pkg =
     \<lparr>PkgPath = ''p'', Types = Some loc_types,
      Syntax = [\<lparr>FilePos = 1, FileEnd = 100, FileName = ''a.go'',
                 Decls = [FuncDeclD loc_declA]\<rparr>],
      TypesInfo = \<lparr>Defs = [(Ident 10 ''A'', ObjFunc loc_A),
                           (Ident 12 ''L'', ObjTypeName loc_L)],
                   Uses = [(Ident 14 ''L'', ObjTypeName loc_L)]\<rparr>\<rparr>"

definition loc_target :: AnalysisTarget where
  "loc_target = \<lparr>Pkg = loc_pkg, Fn = loc_declA\<rparr>"

definition loc_entryL :: "string \<times> TypeInfo" where
  "loc_entryL = (''p.L'', \<lparr>ti_Name = ''p.L'', ti_Definition = loc_L, ti_Snippet = []\<rparr>)"

definition loc_result :: analysisResult where
  "loc_result = \<lparr>CalledFuncs = [], ReferencedTypes = [loc_entryL]\<rparr>"

text \<open>
  A project with three packages in which only callables collide: \<open>a\<close> and \<open>b\<close> each
  declare a function \<open>Run\<close>, a type \<open>T\<close> and a method \<open>Do\<close> with receiver \<open>*T\<close>; \<open>Main\<close> in
  package \<open>m\<close> calls both functions and both methods and refers to no type in its body.
\<close>

definition mth_typesM :: types_Package where "mth_typesM = TypesPackage 1 ''m''"
definition mth_typesA :: types_Package where "mth_typesA = TypesPackage 2 ''a''"
definition mth_typesB :: types_Package where "mth_typesB = TypesPackage 3 ''b''"

definition mth_Main :: Func where "mth_Main = Func (Some mth_typesM) ''Main'' NoReceiver 10"
definition mth_RunA :: Func where "mth_RunA = Func (Some mth_typesA) ''Run'' NoReceiver 110"
definition mth_RunB :: Func where "mth_RunB = Func (Some mth_typesB) ''Run'' NoReceiver 210"

definition mth_DoA :: Func where
  "mth_DoA = Func (Some mth_typesA) ''Do'' (NamedReceiver True (Some mth_typesA) ''T'' []) 130"

definition mth_DoB :: Func where
  "mth_DoB = Func (Some mth_typesB) ''Do'' (NamedReceiver True (Some mth_typesB) ''T'' []) 230"

definition mth_bodyMain :: "Node list" where
  "mth_bodyMain =
     [OtherNode [IdentNode (Ident 11 ''Run'')], OtherNode [IdentNode (Ident 12 ''Run'')],
      OtherNode [IdentNode (Ident 13 ''x''), IdentNode (Ident 14 ''Do'')],
      OtherNode [IdentNode (Ident 15 ''y''), IdentNode (Ident 16 ''Do'')]]"

definition mth_declMain :: FuncDecl where
  "mth_declMain = FuncDecl (Ident 10 ''Main'') (Some mth_bodyMain)
     (Inr ''func Main(x *a.T, y *b.T) { a.Run(); b.Run(); x.Do(); y.Do() }'')"

definition mth_declRunA :: FuncDecl where
  "mth_declRunA = FuncDecl (Ident 110 ''Run'') (Some []) (Inr ''func Run() {}'')"

definition mth_declRunB :: FuncDecl where
  "mth_declRunB = FuncDecl (Ident 210 ''Run'') (Some []) (Inr ''func Run() {}'')"

definition mth_declDoA :: FuncDecl where
  "mth_declDoA = FuncDecl (Ident 130 ''Do'') (Some []) (Inr ''func (t *T) Do() {}'')"

definition mth_declDoB :: FuncDecl where
  "mth_declDoB = FuncDecl (Ident 230 ''Do'') (Some []) (Inr ''func (t *T) Do() {}'')"

definition mth_pkgM :: Package where
  "mth_pkgM =
     \<lparr>PkgPath = ''m'', Types = Some mth_typesM,
      Syntax = [\<lparr>FilePos = 1, FileEnd = 100, FileName = ''m/main.go'',
                 Decls = [FuncDeclD mth_declMain]\<rparr>],
      TypesInfo = \<lparr>Defs = [(Ident 10 ''Main'', ObjFunc mth_Main)],
                   Uses = [(Ident 11 ''Run'', ObjFunc mth_RunA),
                           (Ident 12 ''Run'', ObjFunc mth_RunB),
                           (Ident 13 ''x'', ObjOther (Some mth_typesM) ''x'' 5),
                           (Ident 14 ''Do'', ObjFunc mth_DoA),
                           (Ident 15 ''y'', ObjOther (Some mth_typesM) ''y'' 6),
                           (Ident 16 ''Do'', ObjFunc mth_DoB)]\<rparr>\<rparr>"

definition mth_pkgA :: Package where
  "mth_pkgA =
     \<lparr>PkgPath = ''a'', Types = Some mth_typesA,
      Syntax = [\<lparr>FilePos = 101, FileEnd = 200, FileName = ''a/run.go'',
                 Decls = [FuncDeclD mth_declRunA,
                          OtherDecl (GenDeclNode token_TYPE
                            [TypeSpecNode (Ident 120 ''T'') [] (Inr ''T struct{}'')]
                            (Inr ''type T struct{}'')),
                          FuncDeclD mth_declDoA]\<rparr>],
      TypesInfo = \<lparr>Defs = [(Ident 110 ''Run'', ObjFunc mth_RunA),
                           (Ident 130 ''Do'', ObjFunc mth_DoA)],
                   Uses = []\<rparr>\<rparr>"

definition mth_pkgB :: Package where
  "mth_pkgB =
     \<lparr>PkgPath = ''b'', Types = Some mth_typesB,
      Syntax = [\<lparr>FilePos = 201, FileEnd = 300, FileName = ''b/run.go'',
                 Decls = [FuncDeclD mth_declRunB,
                          OtherDecl (GenDeclNode token_TYPE
                            [TypeSpecNode (Ident 220 ''T'') [] (Inr ''T struct{}'')]
                            (Inr ''type T struct{}'')),
                          FuncDeclD mth_declDoB]\<rparr>],
      TypesInfo = \<lparr>Defs = [(Ident 210 ''Run'', ObjFunc mth_RunB),
                           (Ident 230 ''Do'', ObjFunc mth_DoB)],
                   Uses = []\<rparr>\<rparr>"

definition mth_pkgs :: "Package list" where
  "mth_pkgs = [mth_pkgM, mth_pkgA, mth_pkgB]"

definition mth_target :: AnalysisTarget where
  "mth_target = \<lparr>Pkg = mth_pkgM, Fn = mth_declMain\<rparr>"

definition mth_taskMain :: AnalysisTask where
  "mth_taskMain = \<lparr>Target = mth_target, Depth = 0\<rparr>"

definition mth_task :: "Package \<Rightarrow> FuncDecl \<Rightarrow> AnalysisTask" where
  "mth_task p d = \<lparr>Target = \<lparr>Pkg = p, Fn = d\<rparr>, Depth = 1\<rparr>"

definition mth_log :: "AnalysisTask list" where
  "mth_log = [mth_taskMain, mth_task mth_pkgA mth_declRunA, mth_task mth_pkgB mth_declRunB,
              mth_task mth_pkgA mth_declDoA, mth_task mth_pkgB mth_declDoB]"

definition mth_result :: analysisResult where
  "mth_result =
     \<lparr>CalledFuncs = [(''a.Run'', mth_RunA), (''b.Run'', mth_RunB),
                     (''(*a.T).Do'', mth_DoA), (''(*b.T).Do'', mth_DoB)],
      ReferencedTypes = []\<rparr>"

definition mth_final :: traversal where
  "mth_final =
     \<lparr>queue = [],
      processedFuncs = {''(*b.T).Do'', ''(*a.T).Do'', ''b.Run'', ''a.Run'', ''m.Main''},
      allCalledFuncs = CalledFuncs mth_result, allReferencedTypes = []\<rparr>"

text \<open>
  A project with three packages in which methods of interface types that are not named
  collide: \<open>a\<close> declares \<open>var X interface{ Run() }\<close>, \<open>b\<close> declares
  \<open>var Y interface{ Run() }\<close>, and \<open>Main\<close> in package \<open>m\<close> calls \<open>a.X.Run()\<close> and
  \<open>b.Y.Run()\<close>. The two methods are different objects of different packages.
\<close>

definition ifc_typesM :: types_Package where "ifc_typesM = TypesPackage 1 ''m''"
definition ifc_typesA :: types_Package where "ifc_typesA = TypesPackage 2 ''a''"
definition ifc_typesB :: types_Package where "ifc_typesB = TypesPackage 3 ''b''"

definition ifc_Main :: Func where "ifc_Main = Func (Some ifc_typesM) ''Main'' NoReceiver 10"

definition ifc_RunA :: Func where
  "ifc_RunA = Func (Some ifc_typesA) ''Run'' InterfaceReceiver 120"

definition ifc_RunB :: Func where
  "ifc_RunB = Func (Some ifc_typesB) ''Run'' InterfaceReceiver 220"

definition ifc_bodyMain :: "Node list" where
  "ifc_bodyMain =
     [OtherNode [IdentNode (Ident 11 ''a''), IdentNode (Ident 12 ''X''),
                 IdentNode (Ident 13 ''Run'')],
      OtherNode [IdentNode (Ident 14 ''b''), IdentNode (Ident 15 ''Y''),
                 IdentNode (Ident 16 ''Run'')]]"

definition ifc_declMain :: FuncDecl where
  "ifc_declMain = FuncDecl (Ident 10 ''Main'') (Some ifc_bodyMain)
     (Inr ''func Main() { a.X.Run(); b.Y.Run() }'')"

definition ifc_pkgM :: Package where
  "ifc_pkgM =
     \<lparr>PkgPath = ''m'', Types = Some ifc_typesM,
      Syntax = [\<lparr>FilePos = 1, FileEnd = 100, FileName = ''m/main.go'',
                 Decls = [FuncDeclD ifc_declMain]\<rparr>],
      TypesInfo = \<lparr>Defs = [(Ident 10 ''Main'', ObjFunc ifc_Main)],
                   Uses = [(Ident 11 ''a'', ObjOther (Some ifc_typesM) ''a'' 3),
                           (Ident 12 ''X'', ObjOther (Some ifc_typesA) ''X'' 110),
                           (Ident 13 ''Run'', ObjFunc ifc_RunA),
                           (Ident 14 ''b'', ObjOther (Some ifc_typesM) ''b'' 4),
                           (Ident 15 ''Y'', ObjOther (Some ifc_typesB) ''Y'' 210),
                           (Ident 16 ''Run'', ObjFunc ifc_RunB)]\<rparr>\<rparr>"

definition ifc_pkgA :: Package where
  "ifc_pkgA =
     \<lparr>PkgPath = ''a'', Types = Some ifc_typesA,
      Syntax = [\<lparr>FilePos = 101, FileEnd = 200, FileName = ''a/x.go'',
                 Decls = [OtherDecl (GenDeclNode token_VAR
                            [OtherNode [IdentNode (Ident 110 ''X''),
                                        OtherNode [IdentNode (Ident 120 ''Run'')]]]
                            (Inr ''var X interface{ Run() }''))]\<rparr>],
      TypesInfo = \<lparr>Defs = [(Ident 110 ''X'', ObjOther (Some ifc_typesA) ''X'' 110),
                           (Ident 120 ''Run'', ObjFunc ifc_RunA)],
                   Uses = []\<rparr>\<rparr>"

definition ifc_pkgB :: Package where
  "ifc_pkgB =
     \<lparr>PkgPath = ''b'', Types = Some ifc_typesB,
      Syntax = [\<lparr>FilePos = 201, FileEnd = 300, FileName = ''b/y.go'',
                 Decls = [OtherDecl (GenDeclNode token_VAR
                            [OtherNode [IdentNode (Ident 210 ''Y''),
                                        OtherNode [IdentNode (Ident 220 ''Run'')]]]
                            (Inr ''var Y interface{ Run() }''))]\<rparr>],
      TypesInfo = \<lparr>Defs = [(Ident 210 ''Y'', ObjOther (Some ifc_typesB) ''Y'' 210),
                           (Ident 220 ''Run'', ObjFunc ifc_RunB)],
                   Uses = []\<rparr>\<rparr>"

definition ifc_pkgs :: "Package list" where
  "ifc_pkgs = [ifc_pkgM, ifc_pkgA, ifc_pkgB]"

definition ifc_target :: AnalysisTarget where
  "ifc_target = \<lparr>Pkg = ifc_pkgM, Fn = ifc_declMain\<rparr>"

definition ifc_result :: analysisResult where
  "ifc_result = \<lparr>CalledFuncs = [(''(interface).Run'', ifc_RunA)], ReferencedTypes = []\<rparr>"

section \<open>The classifier computes the direct references\<close>

lemma collected_Nil: "collected v [] = v"
  by (simp add: collected_def)

lemma collected_append: "collected (collected v xs) ys = collected v (xs @ ys)"
  by (simp add: collected_def)

lemma Visit_Ident: "Visit v (Some (IdentNode ident)) = Some (collected v [ident])"
  by (simp add: Visit_def collected_def callableRef_def typeRef_def
      split: option.splits Object.splits)

lemma Visit_Other: "Visit v (Some (OtherNode ns)) = Some v"
  by (simp add: Visit_def)

lemma Visit_TypeSpec: "Visit v (Some (TypeSpecNode name children fmt)) = Some v"
  by (simp add: Visit_def)

lemma Visit_GenDecl: "Visit v (Some (GenDeclNode tok specs fmt)) = Some v"
  by (simp add: Visit_def)

lemma fold_Walk_collected:
  assumes "\<And>c w. c \<in> set ns \<Longrightarrow> Walk w c = collected w (idents c)"
  shows "fold (\<lambda>child w. Walk w child) ns v = collected v (concat (map idents ns))"
  using assms
proof (induction ns arbitrary: v)
  case Nil
  show ?case by (simp add: collected_Nil)
next
  case (Cons c cs)
  then show ?case by (simp add: collected_append)
qed

lemma Walk_collected: "Walk v n = collected v (idents n)"
proof (induction v n rule: Walk.induct)
  case (1 v ident)
  show ?case by (simp add: Visit_Ident)
next
  case (2 v name children fmt)
  have "fold (\<lambda>child w. Walk w child) children (collected v [name]) =
        collected (collected v [name]) (concat (map idents children))"
    by (rule fold_Walk_collected) (simp add: 2 Visit_TypeSpec Visit_Ident)
  then show ?case by (simp add: Visit_TypeSpec Visit_Ident collected_append)
next
  case (3 v tok specs fmt)
  have "fold (\<lambda>child w. Walk w child) specs v = collected v (concat (map idents specs))"
    by (rule fold_Walk_collected) (simp add: 3 Visit_GenDecl)
  then show ?case by (simp add: Visit_GenDecl)
next
  case (4 v ns)
  have "fold (\<lambda>child w. Walk w child) ns v = collected v (concat (map idents ns))"
    by (rule fold_Walk_collected) (simp add: 4 Visit_Other)
  then show ?case by (simp add: Visit_Other)
qed

section \<open>The loop ends\<close>

lemma inspectFuncDecl_fold:
  "fold (\<lambda>d foundNode.
           case d of
             FuncDeclD fn \<Rightarrow> if NamePos (Name fn) = pos then Some fn else foundNode
           | OtherDecl n \<Rightarrow> foundNode) decls acc = Some d \<Longrightarrow>
   acc = Some d \<or> (FuncDeclD d \<in> set decls \<and> NamePos (Name d) = pos)"
  by (induction decls arbitrary: acc) (auto split: Decl.splits if_splits)

lemma inspectFuncDecl_Some:
  "inspectFuncDecl decls pos = Some d \<Longrightarrow> FuncDeclD d \<in> set decls \<and> NamePos (Name d) = pos"
  unfolding inspectFuncDecl_def by (drule inspectFuncDecl_fold) simp

lemma findFuncDeclIn_Some:
  "findFuncDeclIn files pos = Some d \<Longrightarrow>
   \<exists>file \<in> set files. FuncDeclD d \<in> set (Decls file) \<and> NamePos (Name d) = pos"
  by (induction files) (auto split: if_splits option.splits dest: inspectFuncDecl_Some)

lemma findFuncDeclAt_declsOf:
  "findFuncDeclAt p pos = Some d \<Longrightarrow> d \<in> set (declsOf p)"
  unfolding findFuncDeclAt_def declsOf_def
  by (drule findFuncDeclIn_Some) force

lemma declTargets_mem:
  "map_of typePkgMap tp = Some p \<Longrightarrow> findFuncDeclAt p pos = Some d \<Longrightarrow>
   \<lparr>Pkg = p, Fn = d\<rparr> \<in> set (declTargets typePkgMap)"
  unfolding declTargets_def
  by (auto dest!: map_of_SomeD findFuncDeclAt_declsOf intro!: bexI[where x="(tp, p)"])

lemma recordFunc_Inr:
  assumes "recordFunc depth scope typePkgMap cd f (allCalled, q) = Inr (allCalled', q')"
  shows "(FullName f \<in> fst ` set allCalled \<and> allCalled' = allCalled \<and> q' = q) \<or>
         (FullName f \<notin> fst ` set allCalled \<and> allCalled' = allCalled @ [(FullName f, f)] \<and>
          (q' = q \<or>
           (\<exists>tp defPkg defNode. cd < depth \<and> f_Pkg f = Some tp \<and> Path tp \<in> scope \<and>
              map_of typePkgMap tp = Some defPkg \<and>
              findFuncDeclAt defPkg (f_Pos f) = Some defNode \<and>
              q' = q @ [\<lparr>Target = \<lparr>Pkg = defPkg, Fn = defNode\<rparr>, Depth = cd + 1\<rparr>])))"
proof (cases "map_of allCalled (FullName f)")
  case (Some existing)
  then have "FullName f \<in> fst ` set allCalled"
    by (metis map_of_eq_None_iff option.distinct(1))
  with Some assms show ?thesis
    by (simp add: recordFunc_def)
next
  case None
  then have "FullName f \<notin> fst ` set allCalled"
    by (simp add: map_of_eq_None_iff)
  with None assms show ?thesis
    by (auto simp: recordFunc_def Let_def split: if_splits option.splits)
qed

lemma forEach_recordFunc:
  assumes "forEach (recordFunc depth scope typePkgMap cd) fs (allCalled, q) =
           Inr (allCalled', q')"
  shows "fst ` set allCalled \<subseteq> fst ` set allCalled' \<and>
         fst ` set allCalled' \<subseteq> fst ` set allCalled \<union> FullName ` set fs \<and>
         (\<exists>new. q' = q @ new \<and> Target ` set new \<subseteq> set (declTargets typePkgMap) \<and>
                length new + card (fst ` set allCalled) \<le> card (fst ` set allCalled'))"
  using assms
proof (induction fs arbitrary: allCalled q)
  case Nil
  then show ?case by simp
next
  case (Cons f fs)
  from Cons.prems obtain a1 q1 where
    step: "recordFunc depth scope typePkgMap cd f (allCalled, q) = Inr (a1, q1)" and
    rest: "forEach (recordFunc depth scope typePkgMap cd) fs (a1, q1) = Inr (allCalled', q')"
    by (auto split: sum.splits)
  from Cons.IH[OF rest] obtain new where
    ih: "fst ` set a1 \<subseteq> fst ` set allCalled'"
        "fst ` set allCalled' \<subseteq> fst ` set a1 \<union> FullName ` set fs"
        "q' = q1 @ new" "Target ` set new \<subseteq> set (declTargets typePkgMap)"
        "length new + card (fst ` set a1) \<le> card (fst ` set allCalled')"
    by blast
  from recordFunc_Inr[OF step] consider
    (same) "a1 = allCalled" "q1 = q"
    | (added) "FullName f \<notin> fst ` set allCalled" "a1 = allCalled @ [(FullName f, f)]" "q1 = q"
    | (queued) tp defPkg defNode where "FullName f \<notin> fst ` set allCalled"
        "a1 = allCalled @ [(FullName f, f)]"
        "map_of typePkgMap tp = Some defPkg" "findFuncDeclAt defPkg (f_Pos f) = Some defNode"
        "q1 = q @ [\<lparr>Target = \<lparr>Pkg = defPkg, Fn = defNode\<rparr>, Depth = cd + 1\<rparr>]"
    by blast
  then show ?case
  proof cases
    case same
    with ih show ?thesis by auto
  next
    case added
    then have c: "card (fst ` set a1) = Suc (card (fst ` set allCalled))"
      by simp
    from added ih have "fst ` set allCalled \<subseteq> fst ` set allCalled'"
      "fst ` set allCalled' \<subseteq> fst ` set allCalled \<union> FullName ` set (f # fs)"
      by auto
    moreover from ih c added have "q' = q @ new \<and> Target ` set new \<subseteq> set (declTargets typePkgMap) \<and>
                length new + card (fst ` set allCalled) \<le> card (fst ` set allCalled')"
      by simp
    ultimately show ?thesis by blast
  next
    case queued
    then have c: "card (fst ` set a1) = Suc (card (fst ` set allCalled))"
      by simp
    let ?t = "\<lparr>Target = \<lparr>Pkg = defPkg, Fn = defNode\<rparr>, Depth = cd + 1\<rparr>"
    from queued ih have "fst ` set allCalled \<subseteq> fst ` set allCalled'"
      "fst ` set allCalled' \<subseteq> fst ` set allCalled \<union> FullName ` set (f # fs)"
      by auto
    moreover from ih c queued declTargets_mem[OF queued(3,4)]
    have "q' = q @ (?t # new) \<and> Target ` set (?t # new) \<subseteq> set (declTargets typePkgMap) \<and>
                length (?t # new) + card (fst ` set allCalled) \<le> card (fst ` set allCalled')"
      by simp
    ultimately show ?thesis by blast
  qed
qed


lemma WalkBody_Inr:
  "WalkBody \<lparr>rc_Info = info, ProjectPackages = scope, rc_CalledFuncs = [],
             rc_ReferencedTypes = []\<rparr> body = Inr c \<Longrightarrow>
   \<exists>stmts. body = Some stmts \<and> rc_CalledFuncs c = directCallables info scope stmts \<and>
     rc_ReferencedTypes c = directTypes info scope stmts"
  by (auto simp: WalkBody_def Walk_collected collected_def directCallables_def
      directTypes_def split: option.splits)

lemma loopBody_cases:
  assumes "queue s = currentTask # rest"
    and "loopBody depth scope typePkgMap s = Inr s'"
  obtains
    (skip) "s' = s\<lparr>queue := rest\<rparr>"
      "ObjectOf (TypesInfo (Pkg (Target currentTask))) (Name (Fn (Target currentTask))) = None \<or>
       (\<exists>fnObj. ObjectOf (TypesInfo (Pkg (Target currentTask)))
                  (Name (Fn (Target currentTask))) = Some (ObjFunc fnObj) \<and>
                FullName fnObj \<in> processedFuncs s)"
  | (expand) fnObj stmts where
      "ObjectOf (TypesInfo (Pkg (Target currentTask))) (Name (Fn (Target currentTask))) =
       Some (ObjFunc fnObj)"
      "FullName fnObj \<notin> processedFuncs s"
      "Body (Fn (Target currentTask)) = Some stmts"
      "forEach (recordFunc depth scope typePkgMap (Depth currentTask))
         (directCallables (TypesInfo (Pkg (Target currentTask))) scope stmts)
         (allCalledFuncs s, rest) = Inr (allCalledFuncs s', queue s')"
      "forEach recordType (directTypes (TypesInfo (Pkg (Target currentTask))) scope stmts)
         (allReferencedTypes s) = Inr (allReferencedTypes s')"
      "processedFuncs s' = insert (FullName fnObj) (processedFuncs s)"
proof (cases "ObjectOf (TypesInfo (Pkg (Target currentTask))) (Name (Fn (Target currentTask)))")
  case None
  with assms have "s' = s\<lparr>queue := rest\<rparr>"
    by (simp add: loopBody_def)
  with None show ?thesis by (rule_tac skip) auto
next
  case (Some obj)
  show ?thesis
  proof (cases obj)
    case (ObjFunc fnObj)
    show ?thesis
    proof (cases "FullName fnObj \<in> processedFuncs s")
      case True
      with assms Some ObjFunc have "s' = s\<lparr>queue := rest\<rparr>"
        by (simp add: loopBody_def)
      with True Some ObjFunc show ?thesis by (rule_tac skip) auto
    next
      case False
      from assms Some ObjFunc False obtain c a' q' t' where
        w: "WalkBody \<lparr>rc_Info = TypesInfo (Pkg (Target currentTask)),
                      ProjectPackages = scope, rc_CalledFuncs = [],
                      rc_ReferencedTypes = []\<rparr> (Body (Fn (Target currentTask))) = Inr c" and
        f: "forEach (recordFunc depth scope typePkgMap (Depth currentTask))
              (rc_CalledFuncs c) (allCalledFuncs s, rest) = Inr (a', q')" and
        t: "forEach recordType (rc_ReferencedTypes c) (allReferencedTypes s) = Inr t'" and
        s': "s' = \<lparr>queue = q', processedFuncs = insert (FullName fnObj) (processedFuncs s),
                   allCalledFuncs = a', allReferencedTypes = t'\<rparr>"
        by (auto simp: loopBody_def Let_def split: sum.splits)
      from WalkBody_Inr[OF w] obtain stmts where
        "Body (Fn (Target currentTask)) = Some stmts"
        "rc_CalledFuncs c = directCallables (TypesInfo (Pkg (Target currentTask))) scope stmts"
        "rc_ReferencedTypes c = directTypes (TypesInfo (Pkg (Target currentTask))) scope stmts"
        by blast
      with Some ObjFunc False f t s' show ?thesis
        by (rule_tac expand) auto
    qed
  next
    case (ObjTypeName t)
    with assms Some show ?thesis by (simp add: loopBody_def)
  next
    case (ObjOther p n pos)
    with assms Some show ?thesis by (simp add: loopBody_def)
  qed
qed

lemma finite_universe: "finite (universe scope typePkgMap q)"
  by (simp add: universe_def)

lemma universe_mono:
  "Target ` set q' \<subseteq> Target ` set q \<union> set (declTargets typePkgMap) \<Longrightarrow>
   universe scope typePkgMap q' \<subseteq> universe scope typePkgMap q"
  unfolding universe_def by (intro image_mono UN_mono) auto

lemma candidates_universe:
  "t \<in> set q \<Longrightarrow> Body (Fn (Target t)) = Some stmts \<Longrightarrow>
   FullName ` set (directCallables (TypesInfo (Pkg (Target t))) scope stmts)
   \<subseteq> universe scope typePkgMap q"
  unfolding universe_def candidates_def by force

lemma loopBody_decreases:
  assumes "queue s \<noteq> []" and "loopBody depth scope typePkgMap s = Inr s'"
  shows "remaining scope typePkgMap s' < remaining scope typePkgMap s"
proof -
  from assms(1) obtain currentTask rest where q: "queue s = currentTask # rest"
    by (cases "queue s") auto
  from q assms(2) show ?thesis
  proof (cases rule: loopBody_cases)
    case skip
    have "universe scope typePkgMap rest \<subseteq> universe scope typePkgMap (queue s)"
      by (rule universe_mono) (auto simp: q)
    then have "card (universe scope typePkgMap rest - fst ` set (allCalledFuncs s))
             \<le> card (universe scope typePkgMap (queue s) - fst ` set (allCalledFuncs s))"
      by (intro card_mono) (auto simp: finite_universe)
    with skip q show ?thesis by (simp add: remaining_def)
  next
    case (expand fnObj stmts)
    let ?K = "fst ` set (allCalledFuncs s)" and ?K' = "fst ` set (allCalledFuncs s')"
    let ?U = "universe scope typePkgMap (queue s)"
    let ?U' = "universe scope typePkgMap (queue s')"
    from forEach_recordFunc[OF expand(4)] obtain new where
      k: "?K \<subseteq> ?K'"
         "?K' \<subseteq> ?K \<union> FullName ` set (directCallables (TypesInfo (Pkg (Target currentTask)))
                                         scope stmts)" and
      n: "queue s' = rest @ new" "Target ` set new \<subseteq> set (declTargets typePkgMap)"
         "length new + card ?K \<le> card ?K'"
      by blast
    have cu: "FullName ` set (directCallables (TypesInfo (Pkg (Target currentTask))) scope stmts)
              \<subseteq> ?U"
      by (rule candidates_universe[OF _ expand(3)]) (simp add: q)
    have "?U' \<subseteq> ?U"
      by (rule universe_mono) (use n q in auto)
    then have 1: "card (?U' - ?K') \<le> card (?U - ?K')"
      by (intro card_mono) (auto simp: finite_universe)
    have "?K' - ?K \<subseteq> ?U"
      using k(2) cu by blast
    then have split: "?U - ?K = (?U - ?K') \<union> (?K' - ?K)"
      using k(1) by blast
    have "card (?U - ?K) = card (?U - ?K') + card (?K' - ?K)"
      unfolding split by (rule card_Un_disjoint) (auto simp: finite_universe)
    moreover have "card (?K' - ?K) = card ?K' - card ?K"
      by (rule card_Diff_subset) (use k in auto)
    ultimately have 2: "card (?U - ?K') + length new \<le> card (?U - ?K)"
      using n(3) by linarith
    from 1 2 n(1) q show ?thesis
      by (simp add: remaining_def)
  qed
qed


lemma runQueue_invariant:
  assumes "runQueue depth scope typePkgMap s = Some (Inr s')"
    and "I s"
    and "\<And>s s'. I s \<Longrightarrow> queue s \<noteq> [] \<Longrightarrow> loopBody depth scope typePkgMap s = Inr s' \<Longrightarrow> I s'"
  shows "I s' \<and> queue s' = []"
  using assms(1,2)
proof (induction s rule: measure_induct_rule[where f = "remaining scope typePkgMap"])
  case (less s)
  show ?case
  proof (cases "queue s = []")
    case True
    with less.prems show ?thesis by (subst (asm) runQueue.simps) auto
  next
    case False
    show ?thesis
    proof (cases "loopBody depth scope typePkgMap s")
      case (Inl p)
      with False less.prems show ?thesis by (subst (asm) runQueue.simps) simp
    next
      case (Inr s1)
      from less.prems(1) False Inr have "runQueue depth scope typePkgMap s1 = Some (Inr s')"
        by (subst (asm) runQueue.simps) simp
      from less.IH[OF loopBody_decreases[OF False Inr] this assms(3)[OF less.prems(2) False Inr]]
      show ?thesis .
    qed
  qed
qed

section \<open>Induction over the runs of the loop\<close>

lemma loop_induct [case_names empty panic step]:
  assumes "\<And>s. queue s = [] \<Longrightarrow> P s"
    and "\<And>s p. queue s \<noteq> [] \<Longrightarrow> loopBody depth scope typePkgMap s = Inl p \<Longrightarrow> P s"
    and "\<And>s s'. queue s \<noteq> [] \<Longrightarrow> loopBody depth scope typePkgMap s = Inr s' \<Longrightarrow> P s' \<Longrightarrow> P s"
  shows "P s"
proof (induction s rule: measure_induct_rule[where f = "remaining scope typePkgMap"])
  case (less s)
  show ?case
  proof (cases "queue s = []")
    case True
    then show ?thesis by (rule assms(1))
  next
    case False
    show ?thesis
    proof (cases "loopBody depth scope typePkgMap s")
      case (Inl p)
      with False show ?thesis by (rule assms(2))
    next
      case (Inr s')
      from False Inr less[OF loopBody_decreases[OF False Inr]] show ?thesis
        by (rule assms(3))
    qed
  qed
qed

lemma runQueue_empty: "queue s = [] \<Longrightarrow> runQueue depth scope typePkgMap s = Some (Inr s)"
  by (subst runQueue.simps) simp

lemma runQueue_panic:
  "queue s \<noteq> [] \<Longrightarrow> loopBody depth scope typePkgMap s = Inl p \<Longrightarrow>
   runQueue depth scope typePkgMap s = Some (Inl p)"
  by (subst runQueue.simps) simp

lemma runQueue_step:
  "queue s \<noteq> [] \<Longrightarrow> loopBody depth scope typePkgMap s = Inr s' \<Longrightarrow>
   runQueue depth scope typePkgMap s = runQueue depth scope typePkgMap s'"
  by (subst runQueue.simps) simp

lemma expansionLog_empty: "queue s = [] \<Longrightarrow> expansionLog depth scope typePkgMap s = Some []"
  by (subst expansionLog.simps) simp

lemma expansionLog_panic:
  "queue s \<noteq> [] \<Longrightarrow> loopBody depth scope typePkgMap s = Inl p \<Longrightarrow>
   expansionLog depth scope typePkgMap s = Some (expandedTask s)"
  by (subst expansionLog.simps) simp

lemma expansionLog_step:
  "queue s \<noteq> [] \<Longrightarrow> loopBody depth scope typePkgMap s = Inr s' \<Longrightarrow>
   expansionLog depth scope typePkgMap s =
   Option.bind (expansionLog depth scope typePkgMap s') (\<lambda>log. Some (expandedTask s @ log))"
  by (subst expansionLog.simps) simp

lemma expansionLog_defined: "\<exists>log. expansionLog depth scope typePkgMap s = Some log"
proof (induction s rule: loop_induct[where depth = depth and scope = scope
      and typePkgMap = typePkgMap])
  case (empty s)
  then show ?case by (simp add: expansionLog_empty)
next
  case (panic s p)
  then show ?case by (simp add: expansionLog_panic)
next
  case (step s s')
  then show ?case by (auto simp: expansionLog_step)
qed

section \<open>What the two recording loops do\<close>

lemma callableRef_scope:
  "f \<in> set (callableRef info scope ident) \<Longrightarrow>
   ObjectOf info ident = Some (ObjFunc f) \<and> (\<exists>p. f_Pkg f = Some p \<and> Path p \<in> scope)"
  by (cases "ObjectOf info ident"; cases "the (ObjectOf info ident)"; cases "f_Pkg f")
     (auto simp: callableRef_def split: option.splits if_splits)

lemma typeRef_scope:
  "t \<in> set (typeRef info scope ident) \<Longrightarrow>
   ObjectOf info ident = Some (ObjTypeName t) \<and> (\<exists>p. t_Pkg t = Some p \<and> Path p \<in> scope)"
  by (cases "ObjectOf info ident"; cases "the (ObjectOf info ident)"; cases "t_Pkg t")
     (auto simp: typeRef_def split: option.splits if_splits)

lemma directCallables_scope:
  "f \<in> set (directCallables info scope stmts) \<Longrightarrow> \<exists>p. f_Pkg f = Some p \<and> Path p \<in> scope"
  unfolding directCallables_def by (auto dest: callableRef_scope)

lemma directTypes_scope:
  "t \<in> set (directTypes info scope stmts) \<Longrightarrow> \<exists>p. t_Pkg t = Some p \<and> Path p \<in> scope"
  unfolding directTypes_def by (auto dest: typeRef_scope)

lemma recordFunc_total:
  "f_Pkg f \<noteq> None \<Longrightarrow> \<exists>r. recordFunc depth scope typePkgMap cd f acc = Inr r"
  by (cases acc) (auto simp: recordFunc_def Let_def split: option.splits)

lemma forEach_recordFunc_total:
  "\<forall>f \<in> set fs. f_Pkg f \<noteq> None \<Longrightarrow>
   \<exists>r. forEach (recordFunc depth scope typePkgMap cd) fs acc = Inr r"
proof (induction fs arbitrary: acc)
  case Nil
  show ?case by simp
next
  case (Cons f fs)
  then obtain r where "recordFunc depth scope typePkgMap cd f acc = Inr r"
    using recordFunc_total[of f depth scope typePkgMap cd acc] by auto
  with Cons show ?case by simp
qed

lemma forEach_recordFunc_facts:
  assumes "forEach (recordFunc depth scope typePkgMap cd) fs (allCalled, q) =
           Inr (allCalled', q')"
  shows "\<exists>added new. allCalled' = allCalled @ added \<and> q' = q @ new \<and>
           namesOf allCalled' = namesOf allCalled \<union> FullName ` set fs \<and>
           distinct (map fst added) \<and>
           (\<forall>e \<in> set added. fst e = FullName (snd e) \<and> snd e \<in> set fs \<and>
                              fst e \<notin> namesOf allCalled) \<and>
           (\<forall>t \<in> set new. cd < depth \<and> Depth t = cd + 1 \<and>
              (\<exists>f. (FullName f, f) \<in> set added \<and> declaredBy scope typePkgMap f (Target t))) \<and>
           length new \<le> length added"
  using assms
proof (induction fs arbitrary: allCalled q)
  case Nil
  then show ?case by simp
next
  case (Cons f fs)
  from Cons.prems obtain a1 q1 where
    step: "recordFunc depth scope typePkgMap cd f (allCalled, q) = Inr (a1, q1)" and
    rest: "forEach (recordFunc depth scope typePkgMap cd) fs (a1, q1) = Inr (allCalled', q')"
    by (auto split: sum.splits)
  from Cons.IH[OF rest] obtain added new where
    ih: "allCalled' = a1 @ added" "q' = q1 @ new"
        "namesOf allCalled' = namesOf a1 \<union> FullName ` set fs"
        "distinct (map fst added)"
        "\<forall>e \<in> set added. fst e = FullName (snd e) \<and> snd e \<in> set fs \<and> fst e \<notin> namesOf a1"
        "\<forall>t \<in> set new. cd < depth \<and> Depth t = cd + 1 \<and>
              (\<exists>f. (FullName f, f) \<in> set added \<and> declaredBy scope typePkgMap f (Target t))"
        "length new \<le> length added"
    by blast
  from recordFunc_Inr[OF step] consider
    (same) "FullName f \<in> fst ` set allCalled" "a1 = allCalled" "q1 = q"
    | (added) "FullName f \<notin> fst ` set allCalled" "a1 = allCalled @ [(FullName f, f)]" "q1 = q"
    | (queued) tp defPkg defNode where "FullName f \<notin> fst ` set allCalled"
        "a1 = allCalled @ [(FullName f, f)]"
        "cd < depth" "f_Pkg f = Some tp" "Path tp \<in> scope"
        "map_of typePkgMap tp = Some defPkg" "findFuncDeclAt defPkg (f_Pos f) = Some defNode"
        "q1 = q @ [\<lparr>Target = \<lparr>Pkg = defPkg, Fn = defNode\<rparr>, Depth = cd + 1\<rparr>]"
    by blast
  then show ?case
  proof cases
    case same
    have "namesOf allCalled' = namesOf allCalled \<union> FullName ` set (f # fs)"
      using ih(3) same by (auto simp: namesOf_def)
    moreover have "\<forall>e \<in> set added. fst e = FullName (snd e) \<and> snd e \<in> set (f # fs) \<and>
                              fst e \<notin> namesOf allCalled"
      using ih(5) same by auto
    ultimately show ?thesis
      using ih(1,2,4,6,7) same(2,3) by blast
  next
    case added
    let ?added = "(FullName f, f) # added"
    have 1: "allCalled' = allCalled @ ?added" "q' = q @ new"
      using ih added by simp_all
    have 2: "namesOf allCalled' = namesOf allCalled \<union> FullName ` set (f # fs)"
      using ih(3) added by (auto simp: namesOf_def)
    have 3: "distinct (map fst ?added)"
      using ih(4,5) added by (auto simp: namesOf_def)
    have sub: "namesOf allCalled \<subseteq> namesOf a1" "FullName f \<notin> namesOf allCalled"
      using added by (auto simp: namesOf_def)
    have 4: "\<forall>e \<in> set ?added. fst e = FullName (snd e) \<and> snd e \<in> set (f # fs) \<and>
                              fst e \<notin> namesOf allCalled"
      using ih(5) sub by fastforce
    have 5: "\<forall>t \<in> set new. cd < depth \<and> Depth t = cd + 1 \<and>
              (\<exists>f. (FullName f, f) \<in> set ?added \<and> declaredBy scope typePkgMap f (Target t))"
      using ih(6) by auto
    have 6: "length new \<le> length ?added"
      using ih(7) by simp
    from 1 2 3 4 5 6 show ?thesis by blast
  next
    case queued
    let ?added = "(FullName f, f) # added"
    let ?t = "\<lparr>Target = \<lparr>Pkg = defPkg, Fn = defNode\<rparr>, Depth = cd + 1\<rparr>"
    let ?new = "?t # new"
    have d: "declaredBy scope typePkgMap f (Target ?t)"
      using queued by (simp add: declaredBy_def)
    have 1: "allCalled' = allCalled @ ?added" "q' = q @ ?new"
      using ih queued by simp_all
    have 2: "namesOf allCalled' = namesOf allCalled \<union> FullName ` set (f # fs)"
      using ih(3) queued by (auto simp: namesOf_def)
    have 3: "distinct (map fst ?added)"
      using ih(4,5) queued by (auto simp: namesOf_def)
    have sub: "namesOf allCalled \<subseteq> namesOf a1" "FullName f \<notin> namesOf allCalled"
      using queued by (auto simp: namesOf_def)
    have 4: "\<forall>e \<in> set ?added. fst e = FullName (snd e) \<and> snd e \<in> set (f # fs) \<and>
                              fst e \<notin> namesOf allCalled"
      using ih(5) sub by fastforce
    have 5: "\<forall>t \<in> set ?new. cd < depth \<and> Depth t = cd + 1 \<and>
              (\<exists>f. (FullName f, f) \<in> set ?added \<and> declaredBy scope typePkgMap f (Target t))"
      using ih(6) d queued(3) by auto
    have 6: "length ?new \<le> length ?added"
      using ih(7) by simp
    from 1 2 3 4 5 6 show ?thesis by blast
  qed
qed

lemma recordType_Inr:
  assumes "recordType t allTypes = Inr allTypes'"
  shows "(typeKey t \<in> namesOf allTypes \<and> allTypes' = allTypes) \<or>
         (typeKey t \<notin> namesOf allTypes \<and>
          allTypes' = allTypes @ [(typeKey t, \<lparr>ti_Name = typeKey t, ti_Definition = t,
                                               ti_Snippet = []\<rparr>)])"
proof -
  from assms obtain tp where tp: "t_Pkg t = Some tp"
    by (auto simp: recordType_def split: option.splits)
  then have k: "typeKey t = Path tp @ ''.'' @ t_Name t"
    by (simp add: typeKey_def)
  show ?thesis
  proof (cases "map_of allTypes (typeKey t)")
    case None
    then have "typeKey t \<notin> namesOf allTypes"
      by (simp add: map_of_eq_None_iff namesOf_def)
    with None assms tp k show ?thesis
      by (simp add: recordType_def Let_def)
  next
    case (Some existing)
    then have "typeKey t \<in> namesOf allTypes"
      unfolding namesOf_def by (metis map_of_eq_None_iff option.distinct(1))
    with Some assms tp k show ?thesis
      by (simp add: recordType_def Let_def)
  qed
qed

lemma recordType_total: "t_Pkg t \<noteq> None \<Longrightarrow> \<exists>r. recordType t allTypes = Inr r"
  by (cases "t_Pkg t"; cases "map_of allTypes (typeKey t)")
     (auto simp: recordType_def typeKey_def Let_def)

lemma forEach_recordType_total:
  "\<forall>t \<in> set ts. t_Pkg t \<noteq> None \<Longrightarrow> \<exists>r. forEach recordType ts allTypes = Inr r"
proof (induction ts arbitrary: allTypes)
  case Nil
  show ?case by simp
next
  case (Cons t ts)
  then obtain r where "recordType t allTypes = Inr r"
    using recordType_total[of t allTypes] by auto
  with Cons show ?case by simp
qed

lemma forEach_recordType_facts:
  assumes "forEach recordType ts allTypes = Inr allTypes'"
  shows "\<exists>added. allTypes' = allTypes @ added \<and>
           namesOf allTypes' = namesOf allTypes \<union> typeKey ` set ts \<and>
           distinct (map fst added) \<and>
           (\<forall>e \<in> set added. fst e = typeKey (ti_Definition (snd e)) \<and>
              ti_Definition (snd e) \<in> set ts \<and> fst e \<notin> namesOf allTypes)"
  using assms
proof (induction ts arbitrary: allTypes)
  case Nil
  then show ?case by simp
next
  case (Cons t ts)
  from Cons.prems obtain a1 where
    step: "recordType t allTypes = Inr a1" and
    rest: "forEach recordType ts a1 = Inr allTypes'"
    by (auto split: sum.splits)
  from Cons.IH[OF rest] obtain added where
    ih: "allTypes' = a1 @ added"
        "namesOf allTypes' = namesOf a1 \<union> typeKey ` set ts"
        "distinct (map fst added)"
        "\<forall>e \<in> set added. fst e = typeKey (ti_Definition (snd e)) \<and>
              ti_Definition (snd e) \<in> set ts \<and> fst e \<notin> namesOf a1"
    by blast
  from recordType_Inr[OF step] show ?case
  proof
    assume same: "typeKey t \<in> namesOf allTypes \<and> a1 = allTypes"
    have "namesOf allTypes' = namesOf allTypes \<union> typeKey ` set (t # ts)"
      using ih(2) same by auto
    moreover have "\<forall>e \<in> set added. fst e = typeKey (ti_Definition (snd e)) \<and>
              ti_Definition (snd e) \<in> set (t # ts) \<and> fst e \<notin> namesOf allTypes"
      using ih(4) same by auto
    ultimately show ?thesis using ih(1,3) same by blast
  next
    let ?e = "(typeKey t, \<lparr>ti_Name = typeKey t, ti_Definition = t, ti_Snippet = []\<rparr>)"
    let ?added = "?e # added"
    assume new: "typeKey t \<notin> namesOf allTypes \<and> a1 = allTypes @ [?e]"
    have 1: "allTypes' = allTypes @ ?added"
      using ih(1) new by simp
    have 2: "namesOf allTypes' = namesOf allTypes \<union> typeKey ` set (t # ts)"
      using ih(2) new by (auto simp: namesOf_def)
    have 3: "distinct (map fst ?added)"
      using ih(3,4) new by (auto simp: namesOf_def)
    have sub: "namesOf allTypes \<subseteq> namesOf a1" "typeKey t \<notin> namesOf allTypes"
      using new by (auto simp: namesOf_def)
    have 4: "\<forall>e \<in> set ?added. fst e = typeKey (ti_Definition (snd e)) \<and>
              ti_Definition (snd e) \<in> set (t # ts) \<and> fst e \<notin> namesOf allTypes"
      using ih(4) sub by fastforce
    from 1 2 3 4 show ?thesis by blast
  qed
qed

section \<open>One pass of the loop\<close>

lemma loopBody_step_cases [consumes 2, case_names skip expand]:
  assumes "queue s \<noteq> []"
    and "loopBody depth scope typePkgMap s = Inr s'"
  obtains
    (skip) "s' = s\<lparr>queue := tl (queue s)\<rparr>" "expandedTask s = []"
  | (expand) stmts added new addedTypes where
      "expandedTask s = [hd (queue s)]"
      "taskKey (hd (queue s)) \<notin> processedFuncs s"
      "processedFuncs s' = insert (taskKey (hd (queue s))) (processedFuncs s)"
      "Body (Fn (Target (hd (queue s)))) = Some stmts"
      "allCalledFuncs s' = allCalledFuncs s @ added"
      "queue s' = tl (queue s) @ new"
      "namesOf (allCalledFuncs s') = namesOf (allCalledFuncs s) \<union>
         FullName ` set (directCallables (TypesInfo (Pkg (Target (hd (queue s))))) scope stmts)"
      "distinct (map fst added)"
      "\<forall>e \<in> set added. fst e = FullName (snd e) \<and>
         snd e \<in> set (directCallables (TypesInfo (Pkg (Target (hd (queue s))))) scope stmts) \<and>
         fst e \<notin> namesOf (allCalledFuncs s)"
      "\<forall>t \<in> set new. Depth (hd (queue s)) < depth \<and> Depth t = Depth (hd (queue s)) + 1 \<and>
         (\<exists>f. (FullName f, f) \<in> set added \<and> declaredBy scope typePkgMap f (Target t))"
      "length new \<le> length added"
      "allReferencedTypes s' = allReferencedTypes s @ addedTypes"
      "namesOf (allReferencedTypes s') = namesOf (allReferencedTypes s) \<union>
         typeKey ` set (directTypes (TypesInfo (Pkg (Target (hd (queue s))))) scope stmts)"
      "distinct (map fst addedTypes)"
      "\<forall>e \<in> set addedTypes. fst e = typeKey (ti_Definition (snd e)) \<and>
         ti_Definition (snd e)
           \<in> set (directTypes (TypesInfo (Pkg (Target (hd (queue s))))) scope stmts) \<and>
         fst e \<notin> namesOf (allReferencedTypes s)"
proof -
  define currentTask where "currentTask = hd (queue s)"
  define rest where "rest = tl (queue s)"
  have q: "queue s = currentTask # rest"
    using assms(1) by (simp add: currentTask_def rest_def)
  from q assms(2) show ?thesis
  proof (cases rule: loopBody_cases)
    case skip
    from skip(2) q have "expandedTask s = []"
      by (auto simp: expandedTask_def)
    with skip(1) q show ?thesis
      by (intro that(1)) simp_all
  next
    case (expand fnObj stmts)
    have e: "expandedTask s = [currentTask]"
      using expand(1,2) q by (simp add: expandedTask_def)
    have "taskKey currentTask = FullName fnObj"
      using expand(1) q by (simp add: taskKey_def)
    with expand(2,6) have k: "taskKey currentTask \<notin> processedFuncs s"
      "processedFuncs s' = insert (taskKey currentTask) (processedFuncs s)"
      by simp_all
    from forEach_recordFunc_facts[OF expand(4)] obtain added new where
      f: "allCalledFuncs s' = allCalledFuncs s @ added" "queue s' = rest @ new"
         "namesOf (allCalledFuncs s') = namesOf (allCalledFuncs s) \<union>
            FullName ` set (directCallables (TypesInfo (Pkg (Target currentTask))) scope stmts)"
         "distinct (map fst added)"
         "\<forall>e \<in> set added. fst e = FullName (snd e) \<and>
            snd e \<in> set (directCallables (TypesInfo (Pkg (Target currentTask))) scope stmts) \<and>
            fst e \<notin> namesOf (allCalledFuncs s)"
         "\<forall>t \<in> set new. Depth currentTask < depth \<and> Depth t = Depth currentTask + 1 \<and>
            (\<exists>f. (FullName f, f) \<in> set added \<and> declaredBy scope typePkgMap f (Target t))"
         "length new \<le> length added"
      by blast
    from forEach_recordType_facts[OF expand(5)] obtain addedTypes where
      t: "allReferencedTypes s' = allReferencedTypes s @ addedTypes"
         "namesOf (allReferencedTypes s') = namesOf (allReferencedTypes s) \<union>
            typeKey ` set (directTypes (TypesInfo (Pkg (Target currentTask))) scope stmts)"
         "distinct (map fst addedTypes)"
         "\<forall>e \<in> set addedTypes. fst e = typeKey (ti_Definition (snd e)) \<and>
            ti_Definition (snd e)
              \<in> set (directTypes (TypesInfo (Pkg (Target currentTask))) scope stmts) \<and>
            fst e \<notin> namesOf (allReferencedTypes s)"
      by blast
    note r = e k expand(3) f t
    show ?thesis
      by (rule that(2)[of stmts added new addedTypes])
         (rule r[unfolded currentTask_def rest_def])+
  qed
qed

lemma loopBody_Inl:
  assumes "queue s \<noteq> []" and "loopBody depth scope typePkgMap s = Inl p"
  shows "(p = TypeAssertionFailed \<and>
          (\<exists>obj. ObjectOf (TypesInfo (Pkg (Target (hd (queue s)))))
                   (Name (Fn (Target (hd (queue s))))) = Some obj \<and>
                 (\<forall>f. obj \<noteq> ObjFunc f))) \<or>
         (p = NilPointerDereference \<and> Body (Fn (Target (hd (queue s)))) = None \<and>
          expandedTask s = [hd (queue s)])"
proof -
  from assms(1) obtain currentTask rest where q: "queue s = currentTask # rest"
    by (cases "queue s") auto
  let ?info = "TypesInfo (Pkg (Target currentTask))"
  show ?thesis
  proof (cases "ObjectOf ?info (Name (Fn (Target currentTask)))")
    case None
    with assms(2) q show ?thesis by (simp add: loopBody_def)
  next
    case (Some obj)
    show ?thesis
    proof (cases obj)
      case (ObjFunc fnObj)
      show ?thesis
      proof (cases "FullName fnObj \<in> processedFuncs s")
        case True
        with assms(2) q Some ObjFunc show ?thesis by (simp add: loopBody_def)
      next
        case False
        show ?thesis
        proof (cases "Body (Fn (Target currentTask))")
          case None
          with assms(2) q Some ObjFunc False show ?thesis
            by (simp add: loopBody_def WalkBody_def expandedTask_def)
        next
          case body: (Some stmts)
          let ?c = "Walk \<lparr>rc_Info = ?info, ProjectPackages = scope, rc_CalledFuncs = [],
                          rc_ReferencedTypes = []\<rparr> (OtherNode stmts)"
          have c: "rc_CalledFuncs ?c = directCallables ?info scope stmts"
            "rc_ReferencedTypes ?c = directTypes ?info scope stmts"
            by (simp_all add: Walk_collected collected_def directCallables_def directTypes_def)
          obtain a' q' where
            f: "forEach (recordFunc depth scope typePkgMap (Depth currentTask))
                  (rc_CalledFuncs ?c) (allCalledFuncs s, rest) = Inr (a', q')"
            using forEach_recordFunc_total[of "rc_CalledFuncs ?c" depth scope typePkgMap
                "Depth currentTask" "(allCalledFuncs s, rest)"] directCallables_scope
            unfolding c by (metis option.distinct(1) surj_pair)
          obtain t' where
            t: "forEach recordType (rc_ReferencedTypes ?c) (allReferencedTypes s) = Inr t'"
            using forEach_recordType_total[of "rc_ReferencedTypes ?c" "allReferencedTypes s"]
              directTypes_scope
            unfolding c by (metis option.distinct(1))
          from assms(2) q Some ObjFunc False body f t show ?thesis
            by (simp add: loopBody_def WalkBody_def)
        qed
      qed
    next
      case (ObjTypeName t)
      with assms(2) q Some show ?thesis by (simp add: loopBody_def)
    next
      case (ObjOther pk n pos)
      with assms(2) q Some show ?thesis by (simp add: loopBody_def)
    qed
  qed
qed

section \<open>The visited set and the result sets\<close>

lemma expandedTask_cases: "expandedTask s = [] \<or> (queue s \<noteq> [] \<and> expandedTask s = [hd (queue s)] \<and>
    taskKey (hd (queue s)) \<notin> processedFuncs s)"
  by (cases "queue s")
     (auto simp: expandedTask_def taskKey_def split: option.splits Object.splits)



lemma loopBody_distinctKeys:
  assumes "distinctKeys s" and "queue s \<noteq> []" and "loopBody depth scope typePkgMap s = Inr s'"
  shows "distinctKeys s'"
  using assms(2,3)
proof (cases rule: loopBody_step_cases)
  case skip
  with assms(1) show ?thesis by (simp add: distinctKeys_def)
next
  case (expand stmts added new addedTypes)
  have "fst ` set added \<inter> namesOf (allCalledFuncs s) = {}"
    using expand(9) by auto
  moreover have "fst ` set addedTypes \<inter> namesOf (allReferencedTypes s) = {}"
    using expand(15) by auto
  ultimately show ?thesis
    using assms(1) expand(5,8,12,14) by (auto simp: distinctKeys_def namesOf_def)
qed

lemma runQueue_distinctKeys:
  assumes "runQueue depth scope typePkgMap s = Some (Inr s')" and "distinctKeys s"
  shows "distinctKeys s'"
  using runQueue_invariant[OF assms(1), of distinctKeys] assms(2) loopBody_distinctKeys
  by blast

lemma performRecursiveAnalysis_Inr:
  assumes "performRecursiveAnalysis target depth pkgs = Some (Inr (res, err))"
  obtains s' where
    "runQueue depth (projectPackages_of pkgs) (typePkgMap_of pkgs) (initialTraversal target) =
     Some (Inr s')"
    "res = \<lparr>CalledFuncs = allCalledFuncs s', ReferencedTypes = allReferencedTypes s'\<rparr>"
    "err = None" "queue s' = []"
proof -
  from assms obtain s' where
    r: "runQueue depth (projectPackages_of pkgs) (typePkgMap_of pkgs) (initialTraversal target) =
        Some (Inr s')"
    and "res = \<lparr>CalledFuncs = allCalledFuncs s', ReferencedTypes = allReferencedTypes s'\<rparr>"
    and "err = None"
    by (auto simp: performRecursiveAnalysis_def split: option.splits sum.splits)
  moreover from runQueue_invariant[OF r, of "\<lambda>s. True"] have "queue s' = []" by simp
  ultimately show ?thesis by (rule that)
qed

lemma result_distinct:
  assumes "performRecursiveAnalysis target depth pkgs = Some (Inr (res, err))"
  shows "distinct (map fst (CalledFuncs res)) \<and> distinct (map fst (ReferencedTypes res))"
proof -
  from assms obtain s' where
    r: "runQueue depth (projectPackages_of pkgs) (typePkgMap_of pkgs) (initialTraversal target) =
        Some (Inr s')"
    and res: "res = \<lparr>CalledFuncs = allCalledFuncs s', ReferencedTypes = allReferencedTypes s'\<rparr>"
    by (rule performRecursiveAnalysis_Inr)
  have "distinctKeys (initialTraversal target)"
    by (simp add: distinctKeys_def initialTraversal_def)
  from runQueue_distinctKeys[OF r this] res show ?thesis
    by (simp add: distinctKeys_def)
qed


section \<open>Scope and origin of the expanded tasks\<close>

lemma typePkgMap_of_fold:
  "(tp, p) \<in> set (fold (\<lambda>p m. case Types p of None \<Rightarrow> m | Some tp \<Rightarrow> (tp, p) # m) pkgs acc)
   \<Longrightarrow> (tp, p) \<in> set acc \<or> (p \<in> set pkgs \<and> Types p = Some tp)"
proof (induction pkgs arbitrary: acc)
  case Nil
  then show ?case by simp
next
  case (Cons a pkgs)
  let ?acc = "case Types a of None \<Rightarrow> acc | Some tp \<Rightarrow> (tp, a) # acc"
  from Cons.prems have "(tp, p) \<in> set (fold (\<lambda>p m. case Types p of None \<Rightarrow> m
      | Some tp \<Rightarrow> (tp, p) # m) pkgs ?acc)"
    by simp
  from Cons.IH[OF this] show ?case
    by (auto split: option.splits)
qed

lemma typePkgMap_of_mem:
  "map_of (typePkgMap_of pkgs) tp = Some p \<Longrightarrow> p \<in> set pkgs \<and> Types p = Some tp"
  unfolding typePkgMap_of_def by (drule map_of_SomeD, drule typePkgMap_of_fold) simp

lemma loopBody_recordedInScope:
  assumes "recordedInScope scope s" and "queue s \<noteq> []"
    and "loopBody depth scope typePkgMap s = Inr s'"
  shows "recordedInScope scope s'"
  using assms(2,3)
proof (cases rule: loopBody_step_cases)
  case skip
  with assms(1) show ?thesis by (simp add: recordedInScope_def)
next
  case (expand stmts added new addedTypes)
  have a: "\<forall>e \<in> set added. fst e = FullName (snd e) \<and>
        (\<exists>p. f_Pkg (snd e) = Some p \<and> Path p \<in> scope)"
    using expand(9) directCallables_scope by blast
  have t: "\<forall>e \<in> set addedTypes. fst e = typeKey (ti_Definition (snd e)) \<and>
        (\<exists>p. t_Pkg (ti_Definition (snd e)) = Some p \<and> Path p \<in> scope)"
    using expand(15) directTypes_scope by blast
  from assms(1) a t expand(5,12) show ?thesis
    by (auto simp: recordedInScope_def)
qed

lemma result_inScope:
  assumes "performRecursiveAnalysis target depth pkgs = Some (Inr (res, err))"
  shows "(\<forall>e \<in> set (CalledFuncs res). fst e = FullName (snd e) \<and>
            (\<exists>p. f_Pkg (snd e) = Some p \<and> Path p \<in> projectPackages_of pkgs)) \<and>
         (\<forall>e \<in> set (ReferencedTypes res). fst e = typeKey (ti_Definition (snd e)) \<and>
            (\<exists>p. t_Pkg (ti_Definition (snd e)) = Some p \<and> Path p \<in> projectPackages_of pkgs))"
proof -
  from assms obtain s' where
    r: "runQueue depth (projectPackages_of pkgs) (typePkgMap_of pkgs) (initialTraversal target) =
        Some (Inr s')"
    and res: "res = \<lparr>CalledFuncs = allCalledFuncs s', ReferencedTypes = allReferencedTypes s'\<rparr>"
    by (rule performRecursiveAnalysis_Inr)
  have "recordedInScope (projectPackages_of pkgs) (initialTraversal target)"
    by (simp add: recordedInScope_def initialTraversal_def)
  with runQueue_invariant[OF r, of "recordedInScope (projectPackages_of pkgs)"]
    loopBody_recordedInScope
  have "recordedInScope (projectPackages_of pkgs) s'" by blast
  with res show ?thesis by (simp add: recordedInScope_def)
qed

lemma fromCallable_mono:
  "fromCallable scope typePkgMap called t \<Longrightarrow> set called \<subseteq> set called' \<Longrightarrow>
   fromCallable scope typePkgMap called' t"
  unfolding fromCallable_def by blast

lemma expandedTask_subset: "set (expandedTask s) \<subseteq> set (queue s)"
  using expandedTask_cases[of s] by (cases "queue s") auto

lemma expansionLog_origin:
  assumes "runQueue depth scope typePkgMap s = Some (Inr sf)"
    and "expansionLog depth scope typePkgMap s = Some log"
    and "\<forall>t \<in> set (queue s). t = init \<or> fromCallable scope typePkgMap (allCalledFuncs s) t"
  shows "(\<forall>t \<in> set log. t = init \<or> fromCallable scope typePkgMap (allCalledFuncs sf) t) \<and>
         set (allCalledFuncs s) \<subseteq> set (allCalledFuncs sf) \<and>
         length (allCalledFuncs s) \<le> length (allCalledFuncs sf) \<and>
         length log + length (allCalledFuncs s) \<le> length (queue s) + length (allCalledFuncs sf)"
  using assms
proof (induction s arbitrary: log rule: loop_induct[where depth = depth and scope = scope
      and typePkgMap = typePkgMap])
  case (empty s)
  then show ?case by (simp add: expansionLog_empty runQueue_empty)
next
  case (panic s p)
  then show ?case by (simp add: runQueue_panic)
next
  case (step s s1)
  from step.prems(1) step.hyps have run1: "runQueue depth scope typePkgMap s1 = Some (Inr sf)"
    by (simp add: runQueue_step)
  from step.prems(2) step.hyps obtain log1 where
    log1: "expansionLog depth scope typePkgMap s1 = Some log1" and
    log: "log = expandedTask s @ log1"
    by (auto simp: expansionLog_step split: bind_splits)
  have facts: "set (allCalledFuncs s) \<subseteq> set (allCalledFuncs s1) \<and>
    length (allCalledFuncs s) \<le> length (allCalledFuncs s1) \<and>
    (\<forall>t \<in> set (queue s1). t = init \<or>
                 fromCallable scope typePkgMap (allCalledFuncs s1) t) \<and>
    length (expandedTask s) + length (queue s1) + length (allCalledFuncs s)
                \<le> length (queue s) + length (allCalledFuncs s1)"
    using step.hyps
  proof (cases rule: loopBody_step_cases)
    case skip
    have "\<forall>t \<in> set (queue s1). t = init \<or>
                 fromCallable scope typePkgMap (allCalledFuncs s1) t"
      using skip step.prems(3) step.hyps(1) list.set_sel(2)[of "queue s"] by auto
    moreover have "length (expandedTask s) + length (queue s1) +
       length (allCalledFuncs s) \<le> length (queue s) + length (allCalledFuncs s1)"
      using skip step.hyps(1) by (cases "queue s") simp_all
    ultimately show ?thesis using skip by simp
  next
    case (expand stmts added new addedTypes)
    from expand(5) have g: "set (allCalledFuncs s) \<subseteq> set (allCalledFuncs s1)"
      "length (allCalledFuncs s) \<le> length (allCalledFuncs s1)" by simp_all
    have old: "t = init \<or> fromCallable scope typePkgMap (allCalledFuncs s1) t"
      if "t \<in> set (tl (queue s))" for t
      using step.prems(3) that g(1) step.hyps(1)
      by (meson fromCallable_mono list.set_sel(2))
    have new: "fromCallable scope typePkgMap (allCalledFuncs s1) t" if "t \<in> set new" for t
      using expand(10) that expand(5) unfolding fromCallable_def by auto
    from old new expand(6) have "\<forall>t \<in> set (queue s1). t = init \<or>
                 fromCallable scope typePkgMap (allCalledFuncs s1) t"
      by auto
    moreover from expand(1,5,6,11) step.hyps(1)
    have "length (expandedTask s) + length (queue s1) +
       length (allCalledFuncs s) \<le> length (queue s) + length (allCalledFuncs s1)"
      by (cases "queue s") simp_all
    ultimately show ?thesis using g by blast
  qed
  then have grow: "set (allCalledFuncs s) \<subseteq> set (allCalledFuncs s1)"
    "length (allCalledFuncs s) \<le> length (allCalledFuncs s1)"
    and inv1: "\<forall>t \<in> set (queue s1). t = init \<or>
                 fromCallable scope typePkgMap (allCalledFuncs s1) t"
    and count: "length (expandedTask s) + length (queue s1) + length (allCalledFuncs s)
                \<le> length (queue s) + length (allCalledFuncs s1)"
    by simp_all
  from step.IH[OF run1 log1 inv1] have ih:
    "\<forall>t \<in> set log1. t = init \<or> fromCallable scope typePkgMap (allCalledFuncs sf) t"
    "set (allCalledFuncs s1) \<subseteq> set (allCalledFuncs sf)"
    "length (allCalledFuncs s1) \<le> length (allCalledFuncs sf)"
    "length log1 + length (allCalledFuncs s1) \<le> length (queue s1) + length (allCalledFuncs sf)"
    by simp_all
  have sub: "set (allCalledFuncs s) \<subseteq> set (allCalledFuncs sf)"
    using grow(1) ih(2) by blast
  have "t = init \<or> fromCallable scope typePkgMap (allCalledFuncs sf) t"
    if "t \<in> set (expandedTask s)" for t
    using that expandedTask_subset[of s] step.prems(3) sub
    by (meson fromCallable_mono subsetD)
  with ih(1) log have 1: "\<forall>t \<in> set log. t = init \<or>
      fromCallable scope typePkgMap (allCalledFuncs sf) t"
    by auto
  have 2: "length (allCalledFuncs s) \<le> length (allCalledFuncs sf)"
    using grow(2) ih(3) by linarith
  have 3: "length log + length (allCalledFuncs s)
           \<le> length (queue s) + length (allCalledFuncs sf)"
    using count ih(4) log by simp
  from 1 sub 2 3 show ?case by blast
qed

lemma result_origin:
  assumes "performRecursiveAnalysis target depth pkgs = Some (Inr (res, err))"
  shows "\<exists>log. expansionLog depth (projectPackages_of pkgs) (typePkgMap_of pkgs)
                 (initialTraversal target) = Some log \<and>
           (\<forall>t \<in> set log. t = \<lparr>Target = target, Depth = 0\<rparr> \<or>
              fromCallable (projectPackages_of pkgs) (typePkgMap_of pkgs) (CalledFuncs res) t) \<and>
           length log \<le> 1 + length (CalledFuncs res)"
proof -
  from assms obtain s' where
    r: "runQueue depth (projectPackages_of pkgs) (typePkgMap_of pkgs) (initialTraversal target) =
        Some (Inr s')"
    and res: "res = \<lparr>CalledFuncs = allCalledFuncs s', ReferencedTypes = allReferencedTypes s'\<rparr>"
    by (rule performRecursiveAnalysis_Inr)
  obtain log where log: "expansionLog depth (projectPackages_of pkgs) (typePkgMap_of pkgs)
                 (initialTraversal target) = Some log"
    using expansionLog_defined by blast
  have "\<forall>t \<in> set (queue (initialTraversal target)). t = \<lparr>Target = target, Depth = 0\<rparr> \<or>
          fromCallable (projectPackages_of pkgs) (typePkgMap_of pkgs)
            (allCalledFuncs (initialTraversal target)) t"
    by (simp add: initialTraversal_def)
  from expansionLog_origin[OF r log this] res log show ?thesis
    by (auto simp: initialTraversal_def)
qed

section \<open>Every reference of an expanded body is recorded\<close>

lemma FullName_collision:
  assumes "f_Recv f = NoReceiver" "f_Recv g = NoReceiver" "f_Pkg f = Some pf" "f_Pkg g = Some pg"
    and "f_Name f = f_Name g"
  shows "FullName f = FullName g \<longleftrightarrow> Path pf = Path pg"
  using assms by (auto simp: FullName_def packagePrefix_def)

lemma typeKey_collision:
  assumes "t_Pkg t = Some pt" "t_Pkg u = Some pu" "t_Name t = t_Name u"
  shows "typeKey t = typeKey u \<longleftrightarrow> Path pt = Path pu"
  using assms by (simp add: typeKey_def)

lemma expansionLog_complete:
  assumes "runQueue depth scope typePkgMap s = Some (Inr sf)"
    and "expansionLog depth scope typePkgMap s = Some log"
  shows "(\<forall>t \<in> set log. \<forall>stmts. Body (Fn (Target t)) = Some stmts \<longrightarrow>
            FullName ` set (directCallables (TypesInfo (Pkg (Target t))) scope stmts)
              \<subseteq> namesOf (allCalledFuncs sf) \<and>
            typeKey ` set (directTypes (TypesInfo (Pkg (Target t))) scope stmts)
              \<subseteq> namesOf (allReferencedTypes sf)) \<and>
         namesOf (allCalledFuncs s) \<subseteq> namesOf (allCalledFuncs sf) \<and>
         namesOf (allReferencedTypes s) \<subseteq> namesOf (allReferencedTypes sf) \<and>
         processedFuncs s \<union> taskKey ` set log \<subseteq> processedFuncs sf"
  using assms
proof (induction s arbitrary: log rule: loop_induct[where depth = depth and scope = scope
      and typePkgMap = typePkgMap])
  case (empty s)
  then show ?case by (simp add: expansionLog_empty runQueue_empty)
next
  case (panic s p)
  then show ?case by (simp add: runQueue_panic)
next
  case (step s s1)
  from step.prems(1) step.hyps have run1: "runQueue depth scope typePkgMap s1 = Some (Inr sf)"
    by (simp add: runQueue_step)
  from step.prems(2) step.hyps obtain log1 where
    log1: "expansionLog depth scope typePkgMap s1 = Some log1" and
    log: "log = expandedTask s @ log1"
    by (auto simp: expansionLog_step split: bind_splits)
  note ih = step.IH[OF run1 log1]
  note ih1 = ih[THEN conjunct1]
  note ih2 = ih[THEN conjunct2, THEN conjunct1]
  note ih3 = ih[THEN conjunct2, THEN conjunct2, THEN conjunct1]
  note ih4 = ih[THEN conjunct2, THEN conjunct2, THEN conjunct2]
  from step.hyps show ?case
  proof (cases rule: loopBody_step_cases)
    case skip
    then have same: "allCalledFuncs s1 = allCalledFuncs s"
      "allReferencedTypes s1 = allReferencedTypes s" "processedFuncs s1 = processedFuncs s"
      "log = log1"
      using log by simp_all
    show ?thesis
      using ih unfolding same .
  next
    case (expand stmts added new addedTypes)
    have here: "FullName ` set (directCallables (TypesInfo (Pkg (Target (hd (queue s)))))
                  scope stmts) \<subseteq> namesOf (allCalledFuncs sf)"
      "typeKey ` set (directTypes (TypesInfo (Pkg (Target (hd (queue s))))) scope stmts)
         \<subseteq> namesOf (allReferencedTypes sf)"
      using expand(7,13) ih2 ih3 by blast+
    have mono: "namesOf (allCalledFuncs s) \<subseteq> namesOf (allCalledFuncs sf)"
      "namesOf (allReferencedTypes s) \<subseteq> namesOf (allReferencedTypes sf)"
      using expand(7,13) ih2 ih3 by blast+
    have vis: "processedFuncs s \<union> taskKey ` set log \<subseteq> processedFuncs sf"
      using expand(1,3) ih4 log by auto
    have "\<forall>t \<in> set log. \<forall>stmts. Body (Fn (Target t)) = Some stmts \<longrightarrow>
            FullName ` set (directCallables (TypesInfo (Pkg (Target t))) scope stmts)
              \<subseteq> namesOf (allCalledFuncs sf) \<and>
            typeKey ` set (directTypes (TypesInfo (Pkg (Target t))) scope stmts)
              \<subseteq> namesOf (allReferencedTypes sf)"
    proof (intro ballI allI impI)
      fix t stmts'
      assume t: "t \<in> set log" and b: "Body (Fn (Target t)) = Some stmts'"
      show "FullName ` set (directCallables (TypesInfo (Pkg (Target t))) scope stmts')
              \<subseteq> namesOf (allCalledFuncs sf) \<and>
            typeKey ` set (directTypes (TypesInfo (Pkg (Target t))) scope stmts')
              \<subseteq> namesOf (allReferencedTypes sf)"
      proof (cases "t \<in> set log1")
        case True
        with ih1 b show ?thesis by blast
      next
        case False
        with t log expand(1) have "t = hd (queue s)" by simp
        with b expand(4) here show ?thesis by simp
      qed
    qed
    with mono vis show ?thesis by blast
  qed
qed

lemma result_complete:
  assumes "performRecursiveAnalysis target depth pkgs = Some (Inr (res, err))"
    and "expansionLog depth (projectPackages_of pkgs) (typePkgMap_of pkgs)
           (initialTraversal target) = Some log"
    and "t \<in> set log" and "Body (Fn (Target t)) = Some stmts"
  shows "FullName ` set (directCallables (TypesInfo (Pkg (Target t)))
                           (projectPackages_of pkgs) stmts) \<subseteq> namesOf (CalledFuncs res) \<and>
         typeKey ` set (directTypes (TypesInfo (Pkg (Target t)))
                          (projectPackages_of pkgs) stmts) \<subseteq> namesOf (ReferencedTypes res)"
proof -
  from assms(1) obtain s' where
    r: "runQueue depth (projectPackages_of pkgs) (typePkgMap_of pkgs) (initialTraversal target) =
        Some (Inr s')"
    and res: "res = \<lparr>CalledFuncs = allCalledFuncs s', ReferencedTypes = allReferencedTypes s'\<rparr>"
    by (rule performRecursiveAnalysis_Inr)
  from expansionLog_complete[OF r assms(2)] assms(3,4) res show ?thesis
    by simp
qed

lemma recorded_lookup:
  assumes "k \<in> namesOf m"
  shows "\<exists>v. map_of m k = Some v \<and> (k, v) \<in> set m"
proof -
  from assms have "map_of m k \<noteq> None"
    by (simp add: namesOf_def map_of_eq_None_iff)
  then obtain v where "map_of m k = Some v" by blast
  then show ?thesis by (blast dest: map_of_SomeD)
qed

section \<open>The order of the names in the output\<close>

lemma go_range_names:
  assumes "go_range m es"
  shows "mset (map fst es) = mset (map fst m)"
    and "distinct (map fst m) \<Longrightarrow> distinct (map fst es)"
proof -
  from assms have "mset es = mset m" by (simp add: go_range_def)
  then have "image_mset fst (mset es) = image_mset fst (mset m)" by simp
  then show e: "mset (map fst es) = mset (map fst m)" by simp
  show "distinct (map fst m) \<Longrightarrow> distinct (map fst es)"
    using mset_eq_imp_distinct_iff[OF e] by simp
qed

lemma ExtractCalledFuncs_Inr:
  assumes "Some (Inr (names, e)) \<in> ExtractCalledFuncs target depth pkgs"
  obtains res entries where
    "performRecursiveAnalysis target depth pkgs = Some (Inr (res, None))"
    "go_range (CalledFuncs res) entries" "names = map fst entries" "e = None"
proof -
  have shape: "performRecursiveAnalysis target depth pkgs = None \<or>
    (\<exists>pn. performRecursiveAnalysis target depth pkgs = Some (Inl pn)) \<or>
    (\<exists>res. performRecursiveAnalysis target depth pkgs = Some (Inr (res, None)))"
    by (simp add: performRecursiveAnalysis_def split: option.splits sum.splits)
  then show ?thesis
  proof (elim disjE exE)
    fix res
    assume r: "performRecursiveAnalysis target depth pkgs = Some (Inr (res, None))"
    with assms obtain entries where "go_range (CalledFuncs res) entries"
      "names = map fst entries" "e = None"
      by (auto simp: ExtractCalledFuncs_def)
    with r show ?thesis by (rule that)
  qed (use assms in \<open>simp_all add: ExtractCalledFuncs_def\<close>)
qed

lemma ExtractTypes_Inr:
  assumes "Some (Inr (names, e)) \<in> ExtractTypes target depth pkgs"
  obtains res entries where
    "performRecursiveAnalysis target depth pkgs = Some (Inr (res, None))"
    "go_range (ReferencedTypes res) entries" "names = map fst entries" "e = None"
proof -
  have shape: "performRecursiveAnalysis target depth pkgs = None \<or>
    (\<exists>pn. performRecursiveAnalysis target depth pkgs = Some (Inl pn)) \<or>
    (\<exists>res. performRecursiveAnalysis target depth pkgs = Some (Inr (res, None)))"
    by (simp add: performRecursiveAnalysis_def split: option.splits sum.splits)
  then show ?thesis
  proof (elim disjE exE)
    fix res
    assume r: "performRecursiveAnalysis target depth pkgs = Some (Inr (res, None))"
    with assms obtain entries where "go_range (ReferencedTypes res) entries"
      "names = map fst entries" "e = None"
      by (auto simp: ExtractTypes_def)
    with r show ?thesis by (rule that)
  qed (use assms in \<open>simp_all add: ExtractTypes_def\<close>)
qed

lemma scen_extract_orders:
  "Some (Inr ([''p.B'', ''p.C''], None)) \<in> ExtractCalledFuncs scen_target 0 [scen_pkg]"
  "Some (Inr ([''p.C'', ''p.B''], None)) \<in> ExtractCalledFuncs scen_target 0 [scen_pkg]"
proof -
  have r: "performRecursiveAnalysis scen_target 0 [scen_pkg] = Some (Inr (scen_direct, None))"
    by code_simp
  have g1: "go_range (CalledFuncs scen_direct) [(''p.B'', scen_B), (''p.C'', scen_C)]"
    by (simp add: go_range_def scen_direct_def)
  have g2: "go_range (CalledFuncs scen_direct) [(''p.C'', scen_C), (''p.B'', scen_B)]"
    by (simp add: go_range_def scen_direct_def)
  show "Some (Inr ([''p.B'', ''p.C''], None)) \<in> ExtractCalledFuncs scen_target 0 [scen_pkg]"
    unfolding ExtractCalledFuncs_def r using g1 by force
  show "Some (Inr ([''p.C'', ''p.B''], None)) \<in> ExtractCalledFuncs scen_target 0 [scen_pkg]"
    unfolding ExtractCalledFuncs_def r using g2 by force
qed


section \<open>The shape of the report\<close>

lemma findFuncDeclIn_range:
  "findFuncDeclIn files pos = Some d \<Longrightarrow>
   \<exists>file \<in> set files. FilePos file \<le> pos \<and> pos < FileEnd file"
  by (induction files) (auto split: if_splits option.splits)

lemma typeSnippetIn_range:
  "typeSnippetIn files pos = Inr snippet \<Longrightarrow>
   \<exists>file \<in> set files. FilePos file \<le> pos \<and> pos < FileEnd file"
  by (induction files) (auto split: if_splits option.splits)

lemma fileNameAt_Inr:
  assumes "\<exists>file \<in> set (Syntax pkg). FilePos file \<le> pos \<and> pos < FileEnd file"
  shows "\<exists>name. fileNameAt pkg pos = Inr name"
proof -
  from assms have "filter (\<lambda>f. FilePos f \<le> pos \<and> pos < FileEnd f) (Syntax pkg) \<noteq> []"
    by (simp add: filter_empty_conv)
  then show ?thesis
    by (cases "filter (\<lambda>f. FilePos f \<le> pos \<and> pos < FileEnd f) (Syntax pkg)")
       (simp_all add: fileNameAt_def)
qed

lemma writeFuncSnippet_block:
  "writeFuncSnippet typePkgMap entry report = Inr (report @ funcBlock typePkgMap entry)"
proof (cases entry)
  case (Pair name fn)
  show ?thesis
  proof (cases "case f_Pkg fn of None \<Rightarrow> None | Some tp \<Rightarrow> map_of typePkgMap tp")
    case None
    with Pair show ?thesis by (simp add: writeFuncSnippet_def funcBlock_def)
  next
    case (Some defPkg)
    show ?thesis
    proof (cases "getFuncSourceSnippet defPkg (f_Pos fn)")
      case (Inl err)
      with Pair Some show ?thesis by (simp add: writeFuncSnippet_def funcBlock_def)
    next
      case (Inr snippet)
      then obtain d where "findFuncDeclIn (Syntax defPkg) (f_Pos fn) = Some d"
        by (auto simp: getFuncSourceSnippet_def findFuncDeclAt_def split: option.splits)
      from fileNameAt_Inr[OF findFuncDeclIn_range[OF this]] obtain fname where
        "fileNameAt defPkg (f_Pos fn) = Inr fname" by blast
      with Pair Some Inr show ?thesis by (simp add: writeFuncSnippet_def funcBlock_def)
    qed
  qed
qed

lemma forEach_writeFuncSnippet:
  "forEach (writeFuncSnippet typePkgMap) entries report =
   Inr (report @ concat (map (funcBlock typePkgMap) entries))"
  by (induction entries arbitrary: report) (simp_all add: writeFuncSnippet_block)

lemma writeTypeSnippet_block:
  assumes "packageLoaded typePkgMap entry"
  shows "writeTypeSnippet typePkgMap entry report = Inr (report @ typeBlock typePkgMap entry)"
proof (cases entry)
  case (Pair name info)
  with assms obtain tp defPkg where
    l: "t_Pkg (ti_Definition info) = Some tp" "map_of typePkgMap tp = Some defPkg"
    by (auto simp: packageLoaded_def split: option.splits)
  show ?thesis
  proof (cases "typeSnippetIn (Syntax defPkg) (t_Pos (ti_Definition info))")
    case (Inl err)
    with Pair l show ?thesis
      by (simp add: writeTypeSnippet_def typeBlock_def getTypeSourceSnippet_def)
  next
    case (Inr snippet)
    from fileNameAt_Inr[OF typeSnippetIn_range[OF this]] obtain fname where
      "fileNameAt defPkg (t_Pos (ti_Definition info)) = Inr fname" by blast
    with Pair l Inr show ?thesis
      by (simp add: writeTypeSnippet_def typeBlock_def getTypeSourceSnippet_def)
  qed
qed

lemma forEach_writeTypeSnippet:
  "\<forall>e \<in> set entries. packageLoaded typePkgMap e \<Longrightarrow>
   forEach (writeTypeSnippet typePkgMap) entries report =
   Inr (report @ concat (map (typeBlock typePkgMap) entries))"
  by (induction entries arbitrary: report) (simp_all add: writeTypeSnippet_block)

lemma buildReport_blocks:
  assumes "\<forall>e \<in> set (snippetTypes orders). packageLoaded (typePkgMap_of pkgs) e"
  shows "buildReport orders target file depth pkgs res =
         Inr (reportSummary orders target file depth res @
              concat (map (funcBlock (typePkgMap_of pkgs)) (snippetFuncs orders)) @
              concat (map (typeBlock (typePkgMap_of pkgs)) (snippetTypes orders)))"
  using assms
  by (simp add: buildReport_def Let_def forEach_writeFuncSnippet forEach_writeTypeSnippet)

lemma inside_here: "\<exists>a b. xs @ ys = a @ xs @ b"
  by (rule exI[of _ "[]"]) simp

lemma inside_later: "\<exists>a b. ys = a @ xs @ b \<Longrightarrow> \<exists>a b. zs @ ys = a @ xs @ b"
proof -
  assume "\<exists>a b. ys = a @ xs @ b"
  then obtain a b where "ys = a @ xs @ b" by blast
  then have "zs @ ys = (zs @ a) @ xs @ b" by simp
  then show ?thesis by blast
qed

lemma nameLines_mem:
  assumes "name \<in> set names"
  shows "\<exists>a b. nameLines names = a @ (''- '' @ name @ newline) @ b"
proof -
  from assms obtain xs ys where "names = xs @ name # ys"
    by (meson split_list)
  then have "nameLines names = nameLines xs @ (''- '' @ name @ newline) @ nameLines ys"
    by (simp add: nameLines_def)
  then show ?thesis by blast
qed

lemma reportSummary_funcs:
  assumes "CalledFuncs res \<noteq> []"
  shows "\<exists>a b. reportSummary orders target file depth res =
           a @ nameLines (map fst (summaryFuncs orders)) @ b"
  unfolding reportSummary_def if_P[OF assms]
  by (rule inside_here | rule inside_later)+

lemma reportSummary_types:
  assumes "ReferencedTypes res \<noteq> []"
  shows "\<exists>a b. reportSummary orders target file depth res =
           a @ nameLines (map fst (summaryTypes orders)) @ b"
  unfolding reportSummary_def if_P[OF assms]
  by (rule inside_here | rule inside_later)+

lemma inside_trans:
  assumes "\<exists>a b. whole = a @ part @ b" and "\<exists>a b. part = a @ piece @ b"
  shows "\<exists>a b. whole = a @ piece @ b"
proof -
  from assms obtain a b c d where "whole = a @ part @ b" "part = c @ piece @ d" by blast
  then have "whole = (a @ c) @ piece @ (d @ b)" by simp
  then show ?thesis by blast
qed

lemma Analyze_member:
  assumes run: "performRecursiveAnalysis target depth pkgs = Some (Inr (res, err))"
    and orders: "rangeOrders_of res orders"
    and report: "buildReport orders target file depth pkgs res = Inr report"
  shows "Some (Inr (report, None)) \<in> Analyze target file depth pkgs"
proof -
  from run have e: "err = None" by (rule performRecursiveAnalysis_Inr)
  have "Some (Inr (report, None)) =
        Some (case buildReport orders target file depth pkgs res of
                Inl p \<Rightarrow> Inl p | Inr r \<Rightarrow> Inr (r, None))"
    by (simp add: report)
  with orders have "Some (Inr (report, None)) \<in>
      {Some (case buildReport orders target file depth pkgs res of
                Inl p \<Rightarrow> Inl p | Inr r \<Rightarrow> Inr (r, None)) | orders.
       rangeOrders_of res orders}"
    by blast
  then show ?thesis
    using run e by (simp add: Analyze_def)
qed

lemma deg_facts:
  shows deg_run: "performRecursiveAnalysis deg_target 0 [deg_pkg] = Some (Inr (deg_result, None))"
    and deg_range: "rangeOrders_of deg_result deg_orders"
    and deg_loaded: "packageLoaded (typePkgMap_of [deg_pkg]) deg_entryT"
    and deg_noFunc: "getFuncSourceSnippet deg_pkg (f_Pos deg_B) =
                       Inl (Error ''could not find FuncDecl node at position 150'')"
    and deg_noType: "getTypeSourceSnippet (Some deg_pkg) (t_Pos deg_T) =
                       Inr (Inl (Error ''could not find TypeSpec node at position 160''))"
    and deg_summary: "reportSummary deg_orders deg_target deg_file 0 deg_result = deg_report"
    and deg_build: "buildReport deg_orders deg_target deg_file 0 [deg_pkg] deg_result =
                      Inr deg_report"
proof -
  show "performRecursiveAnalysis deg_target 0 [deg_pkg] = Some (Inr (deg_result, None))"
    by code_simp
  show "rangeOrders_of deg_result deg_orders"
    by (simp add: rangeOrders_of_def go_range_def deg_result_def deg_orders_def)
  show "packageLoaded (typePkgMap_of [deg_pkg]) deg_entryT"
    by code_simp
  show "getFuncSourceSnippet deg_pkg (f_Pos deg_B) =
          Inl (Error ''could not find FuncDecl node at position 150'')"
    by code_simp
  show "getTypeSourceSnippet (Some deg_pkg) (t_Pos deg_T) =
          Inr (Inl (Error ''could not find TypeSpec node at position 160''))"
    by code_simp
  show "reportSummary deg_orders deg_target deg_file 0 deg_result = deg_report"
    by code_simp
  show "buildReport deg_orders deg_target deg_file 0 [deg_pkg] deg_result = Inr deg_report"
    by code_simp
qed

lemma deg_orders_unique: "rangeOrders_of deg_result orders \<longleftrightarrow> orders = deg_orders"
  by (cases orders)
     (auto simp: rangeOrders_of_def go_range_def deg_result_def deg_orders_def)

text \<open>A type declared in a function body is located, and its declaration is printed.\<close>

lemma loc_facts:
  shows loc_run: "performRecursiveAnalysis loc_target 0 [loc_pkg] = Some (Inr (loc_result, None))"
    and loc_snippet: "getTypeSourceSnippet (Some loc_pkg) (t_Pos loc_L) =
                        Inr (Inr ''type L struct{}'')"
    and loc_block: "typeBlock (typePkgMap_of [loc_pkg]) loc_entryL =
                      snippetHeader ''p.L'' ''a.go'' ''type L struct{}''"
proof -
  show "performRecursiveAnalysis loc_target 0 [loc_pkg] = Some (Inr (loc_result, None))"
    by code_simp
  show "getTypeSourceSnippet (Some loc_pkg) (t_Pos loc_L) = Inr (Inr ''type L struct{}'')"
    by code_simp
  show "typeBlock (typePkgMap_of [loc_pkg]) loc_entryL =
          snippetHeader ''p.L'' ''a.go'' ''type L struct{}''"
    by code_simp
qed

section \<open>The outcomes of the entry points\<close>

lemma go_range_realise:
  assumes d: "distinct (map fst m)" and dn: "distinct names" and s: "set names = fst ` set m"
  shows "\<exists>entries. go_range m entries \<and> map fst entries = names"
proof -
  let ?e = "map (\<lambda>k. (k, the (map_of m k))) names"
  have f: "map fst ?e = names" by (simp add: comp_def)
  have de: "distinct ?e"
    using dn by (simp add: distinct_map inj_on_def)
  from d have dm: "distinct m" by (simp add: distinct_map)
  have "set ?e = set m"
  proof (intro set_eqI iffI)
    fix x assume "x \<in> set ?e"
    then obtain k where k: "k \<in> set names" "x = (k, the (map_of m k))" by auto
    with s obtain v where "(k, v) \<in> set m" by force
    with d have "map_of m k = Some v" by simp
    with k \<open>(k, v) \<in> set m\<close> show "x \<in> set m" by simp
  next
    fix x assume x: "x \<in> set m"
    obtain k v where kv: "x = (k, v)" by (cases x)
    with x d have "map_of m k = Some v" by simp
    moreover from x kv s have "k \<in> set names" by force
    ultimately show "x \<in> set ?e" using kv by force
  qed
  with set_eq_iff_mset_eq_distinct[OF de dm] have "mset ?e = mset m"
    by blast
  with f show ?thesis unfolding go_range_def by blast
qed

lemma go_range_outcomes:
  assumes d: "distinct (map fst m)"
  shows "{(Some (Inr (map fst entries, None)) :: string list outcome) | entries.
            go_range m entries} =
         {Some (Inr (names, None)) | names. distinct names \<and> set names = namesOf m}"
    (is "?L = ?R")
proof (intro set_eqI iffI)
  fix out :: "string list outcome"
  assume "out \<in> ?L"
  then obtain entries where o: "out = Some (Inr (map fst entries, None))"
    and g: "go_range m entries" by blast
  from go_range_names(2)[OF g d] have "distinct (map fst entries)" .
  moreover from go_range_names(1)[OF g, THEN mset_eq_setD]
  have "set (map fst entries) = namesOf m" by (simp add: namesOf_def)
  ultimately show "out \<in> ?R" using o by blast
next
  fix out :: "string list outcome"
  assume "out \<in> ?R"
  then obtain names where o: "out = Some (Inr (names, None))"
    and dn: "distinct names" and s: "set names = namesOf m" by blast
  from go_range_realise[OF d dn] s obtain entries where
    "go_range m entries" "map fst entries = names" by (auto simp: namesOf_def)
  with o show "out \<in> ?L" by blast
qed

lemma writeTypeSnippet_append:
  "writeTypeSnippet typePkgMap entry report = Inr report' \<Longrightarrow> \<exists>b. report' = report @ b"
  by (auto simp: writeTypeSnippet_def Let_def split: prod.splits sum.splits option.splits)

lemma forEach_writeTypeSnippet_append:
  "forEach (writeTypeSnippet typePkgMap) entries report = Inr report' \<Longrightarrow>
   \<exists>b. report' = report @ b"
proof (induction entries arbitrary: report)
  case Nil
  then show ?case by simp
next
  case (Cons e es)
  from Cons.prems obtain r1 where a: "writeTypeSnippet typePkgMap e report = Inr r1"
    and b: "forEach (writeTypeSnippet typePkgMap) es r1 = Inr report'"
    by (auto split: sum.splits)
  from writeTypeSnippet_append[OF a] obtain b1 where "r1 = report @ b1" ..
  moreover from Cons.IH[OF b] obtain b2 where "report' = r1 @ b2" ..
  ultimately have "report' = report @ (b1 @ b2)" by simp
  then show ?case ..
qed

lemma buildReport_append:
  assumes "buildReport orders target file depth pkgs res = Inr report"
  shows "\<exists>blocks. report = reportSummary orders target file depth res @ blocks"
proof -
  from assms have "forEach (writeTypeSnippet (typePkgMap_of pkgs)) (snippetTypes orders)
      (reportSummary orders target file depth res @
       concat (map (funcBlock (typePkgMap_of pkgs)) (snippetFuncs orders))) = Inr report"
    by (simp add: buildReport_def Let_def forEach_writeFuncSnippet)
  from forEach_writeTypeSnippet_append[OF this] obtain b where
    "report = (reportSummary orders target file depth res @
       concat (map (funcBlock (typePkgMap_of pkgs)) (snippetFuncs orders))) @ b" ..
  then have "report = reportSummary orders target file depth res @
       (concat (map (funcBlock (typePkgMap_of pkgs)) (snippetFuncs orders)) @ b)" by simp
  then show ?thesis ..
qed

lemma Analyze_Inr:
  assumes run: "performRecursiveAnalysis target depth pkgs = Some (Inr (res, err))"
    and out: "Some (Inr (report, e)) \<in> Analyze target file depth pkgs"
  obtains orders blocks where "rangeOrders_of res orders"
    "report = reportSummary orders target file depth res @ blocks" "e = None"
proof -
  from run have "err = None" by (rule performRecursiveAnalysis_Inr)
  with run out obtain orders where o: "rangeOrders_of res orders"
    and c: "Some (Inr (report, e)) =
        Some (case buildReport orders target file depth pkgs res of
                Inl p \<Rightarrow> Inl p | Inr r \<Rightarrow> Inr (r, None))"
    by (auto simp: Analyze_def)
  from c have b: "buildReport orders target file depth pkgs res = Inr report" and "e = None"
    by (simp_all split: sum.splits)
  from buildReport_append[OF b] obtain blocks where
    "report = reportSummary orders target file depth res @ blocks" ..
  with o show ?thesis using \<open>e = None\<close> by (rule that)
qed

lemma rangeOrders_names:
  assumes run: "performRecursiveAnalysis target depth pkgs = Some (Inr (res, err))"
    and o: "rangeOrders_of res orders"
  shows "distinct (map fst (summaryFuncs orders)) \<and>
         set (map fst (summaryFuncs orders)) = namesOf (CalledFuncs res) \<and>
         distinct (map fst (summaryTypes orders)) \<and>
         set (map fst (summaryTypes orders)) = namesOf (ReferencedTypes res)"
proof -
  from o have f: "go_range (CalledFuncs res) (summaryFuncs orders)"
    and t: "go_range (ReferencedTypes res) (summaryTypes orders)"
    by (simp_all add: rangeOrders_of_def)
  from result_distinct[OF run] have d: "distinct (map fst (CalledFuncs res))"
    "distinct (map fst (ReferencedTypes res))" by simp_all
  have "set (map fst (summaryFuncs orders)) = namesOf (CalledFuncs res)"
    using go_range_names(1)[OF f, THEN mset_eq_setD] by (simp add: namesOf_def)
  moreover have "set (map fst (summaryTypes orders)) = namesOf (ReferencedTypes res)"
    using go_range_names(1)[OF t, THEN mset_eq_setD] by (simp add: namesOf_def)
  ultimately show ?thesis
    using go_range_names(2)[OF f d(1)] go_range_names(2)[OF t d(2)] by simp
qed

section \<open>Recursive functions are expanded and recorded\<close>

lemma occurrences_absent: "name \<notin> namesOf m \<Longrightarrow> occurrences name m = 0"
  by (induction m) (auto simp: occurrences_def namesOf_def)

lemma occurrences_once:
  "distinct (map fst m) \<Longrightarrow> name \<in> namesOf m \<Longrightarrow> occurrences name m = 1"
proof (induction m)
  case Nil
  then show ?case by (simp add: namesOf_def)
next
  case (Cons e m)
  show ?case
  proof (cases "fst e = name")
    case True
    with Cons.prems(1) have "name \<notin> namesOf m" by (auto simp: namesOf_def)
    from occurrences_absent[OF this] True show ?thesis by (simp add: occurrences_def)
  next
    case False
    with Cons.prems have "name \<in> namesOf m" "distinct (map fst m)" by (auto simp: namesOf_def)
    with Cons.IH False show ?thesis by (simp add: occurrences_def)
  qed
qed

lemma taskKey_resolvesTo: "resolvesTo (Target t) f \<Longrightarrow> taskKey t = FullName f"
  by (simp add: resolvesTo_def taskKey_def)







lemma result_once:
  assumes run: "performRecursiveAnalysis target depth pkgs = Some (Inr (res, err))"
    and log: "expansionLog depth (projectPackages_of pkgs) (typePkgMap_of pkgs)
                (initialTraversal target) = Some log"
    and t: "t \<in> set log" "Body (Fn (Target t)) = Some stmts"
    and f: "f \<in> set (directCallables (TypesInfo (Pkg (Target t))) (projectPackages_of pkgs) stmts)"
  shows "occurrences (FullName f) (CalledFuncs res) = 1"
proof -
  from result_complete[OF run log t] f have "FullName f \<in> namesOf (CalledFuncs res)"
    by blast
  with result_distinct[OF run] show ?thesis
    by (simp add: occurrences_once)
qed


section \<open>Full names of callables in different packages\<close>

lemma split_first:
  assumes "xs @ as = ys @ bs" and "c \<notin> set xs" and "c \<notin> set ys"
    and "as = [] \<or> hd as = c" and "bs = [] \<or> hd bs = c"
  shows "xs = ys"
proof -
  have t: "takeWhile (\<lambda>x. x \<noteq> c) (zs @ cs) = zs" if "c \<notin> set zs" "cs = [] \<or> hd cs = c"
    for zs cs :: "'a list"
  proof -
    from that(2) have "takeWhile (\<lambda>x. x \<noteq> c) cs = []"
      by (cases cs) auto
    moreover from that(1) have "\<forall>x \<in> set zs. x \<noteq> c" by auto
    ultimately show ?thesis by (simp add: takeWhile_append2)
  qed
  from assms(1) have "takeWhile (\<lambda>x. x \<noteq> c) (xs @ as) = takeWhile (\<lambda>x. x \<noteq> c) (ys @ bs)"
    by simp
  with t[OF assms(2,4)] t[OF assms(3,5)] show ?thesis by simp
qed

lemma split_last:
  assumes "xs @ c # as = ys @ c # bs" and "c \<notin> set as" and "c \<notin> set bs"
  shows "xs = ys"
proof -
  from assms(1) obtain us where
    "(xs = ys @ us \<and> us @ c # as = c # bs) \<or> (xs @ us = ys \<and> c # as = us @ c # bs)"
    unfolding append_eq_append_conv2 by blast
  then show ?thesis
  proof
    assume a: "xs = ys @ us \<and> us @ c # as = c # bs"
    show ?thesis
    proof (cases us)
      case Nil
      with a show ?thesis by simp
    next
      case (Cons u us')
      with a have "bs = us' @ c # as" by simp
      then have "c \<in> set bs" by simp
      with assms(3) show ?thesis by simp
    qed
  next
    assume a: "xs @ us = ys \<and> c # as = us @ c # bs"
    show ?thesis
    proof (cases us)
      case Nil
      with a show ?thesis by simp
    next
      case (Cons u us')
      with a have "as = us' @ c # bs" by simp
      then have "c \<in> set as" by simp
      with assms(2) show ?thesis by simp
    qed
  qed
qed

lemma packagePrefix_path:
  "packagePrefix (Some p) = packagePrefix (Some q) \<Longrightarrow> Path p = Path q"
  by (auto simp: packagePrefix_def split: if_splits)

lemma prefixed_name_hd:
  assumes "pathText (Path p)" and "identifierText n"
  shows "packagePrefix (Some p) @ n \<noteq> []"
    and "hd (packagePrefix (Some p) @ n) \<noteq> CHR ''*''"
    and "hd (packagePrefix (Some p) @ n) \<noteq> CHR ''(''"
    and "CHR ''['' \<notin> set (packagePrefix (Some p) @ n)"
proof -
  from assms(2) have n: "n \<noteq> []" "hd n \<noteq> CHR ''*''" "hd n \<noteq> CHR ''(''"
    "CHR ''['' \<notin> set n"
    by (cases n; auto simp: identifierText_def)+
  from assms(1) have p: "Path p \<noteq> [] \<Longrightarrow> hd (Path p) \<noteq> CHR ''*'' \<and> hd (Path p) \<noteq> CHR ''(''"
    "CHR ''['' \<notin> set (Path p)"
    by (cases "Path p"; auto simp: pathText_def)+
  show "packagePrefix (Some p) @ n \<noteq> []" using n by simp
  show "hd (packagePrefix (Some p) @ n) \<noteq> CHR ''*''"
    using n p by (cases "Path p = []") (simp_all add: packagePrefix_def)
  show "hd (packagePrefix (Some p) @ n) \<noteq> CHR ''(''"
    using n p by (cases "Path p = []") (simp_all add: packagePrefix_def)
  show "CHR ''['' \<notin> set (packagePrefix (Some p) @ n)"
    using n p by (simp add: packagePrefix_def)
qed

lemma prefixed_name_path:
  assumes "packagePrefix (Some p) @ n = packagePrefix (Some q) @ m"
    and "identifierText n" and "identifierText m"
  shows "Path p = Path q"
proof -
  from assms(2,3) have d: "CHR ''.'' \<notin> set n" "CHR ''.'' \<notin> set m"
    by (auto simp: identifierText_def)
  show ?thesis
  proof (cases "Path p = []")
    case True
    show ?thesis
    proof (cases "Path q = []")
      case True
      with \<open>Path p = []\<close> show ?thesis by simp
    next
      case False
      with True assms(1) have "n = Path q @ CHR ''.'' # m" by (simp add: packagePrefix_def)
      then have "CHR ''.'' \<in> set n" by simp
      with d show ?thesis by simp
    qed
  next
    case False
    show ?thesis
    proof (cases "Path q = []")
      case True
      with False assms(1) have "m = Path p @ CHR ''.'' # n" by (simp add: packagePrefix_def)
      then have "CHR ''.'' \<in> set m" by simp
      with d show ?thesis by simp
    next
      case q: False
      with False assms(1) have "Path p @ CHR ''.'' # n = Path q @ CHR ''.'' # m"
        by (simp add: packagePrefix_def)
      from split_last[OF this d] show ?thesis .
    qed
  qed
qed

lemma FullName_named:
  "f_Recv f = NamedReceiver pointer pkg name typeArgs \<Longrightarrow>
   FullName f = CHR ''('' # (receiverText pointer pkg name @ typeArgs) @ '').'' @ f_Name f"
  by (simp add: FullName_def receiverText_def)

lemma receiverText_path:
  assumes "receiverText b (Some p) n = receiverText c (Some q) m"
    and "pathText (Path p)" "pathText (Path q)" "identifierText n" "identifierText m"
  shows "Path p = Path q"
proof -
  note hp = prefixed_name_hd[OF assms(2,4)]
  note hq = prefixed_name_hd[OF assms(3,5)]
  have "packagePrefix (Some p) @ n = packagePrefix (Some q) @ m"
  proof (cases b; cases c)
    assume "b" "c"
    with assms(1) show ?thesis by (simp add: receiverText_def)
  next
    assume "\<not> b" "\<not> c"
    with assms(1) show ?thesis by (simp add: receiverText_def)
  next
    assume "b" "\<not> c"
    with assms(1) have "CHR ''*'' # (packagePrefix (Some p) @ n) = packagePrefix (Some q) @ m"
      by (simp add: receiverText_def)
    then have "hd (packagePrefix (Some q) @ m) = CHR ''*''"
      by (metis list.sel(1))
    with hq(2) show ?thesis by simp
  next
    assume "\<not> b" "c"
    with assms(1) have "packagePrefix (Some p) @ n = CHR ''*'' # (packagePrefix (Some q) @ m)"
      by (simp add: receiverText_def)
    then have "hd (packagePrefix (Some p) @ n) = CHR ''*''"
      by (metis list.sel(1))
    with hp(2) show ?thesis by simp
  qed
  then show ?thesis using assms(4,5) by (rule prefixed_name_path)
qed

lemma receiverText_bracket:
  assumes "pathText (Path p)" "identifierText n"
  shows "CHR ''['' \<notin> set (receiverText b (Some p) n)"
  using prefixed_name_hd(4)[OF assms] by (simp add: receiverText_def)

lemma FullName_qualified:
  assumes f: "qualifiedBy f pf" and g: "qualifiedBy g pg"
    and n: "f_Name f = f_Name g" and ne: "Path pf \<noteq> Path pg"
  shows "FullName f \<noteq> FullName g"
proof
  assume e: "FullName f = FullName g"
  from f have pf: "f_Pkg f = Some pf" "pathText (Path pf)" "identifierText (f_Name f)"
    by (simp_all add: qualifiedBy_def)
  from g have pg: "f_Pkg g = Some pg" "pathText (Path pg)" "identifierText (f_Name g)"
    by (simp_all add: qualifiedBy_def)
  have plain_named: False
    if a: "f_Recv a = NoReceiver" "f_Pkg a = Some pa" "pathText (Path pa)"
      "identifierText (f_Name a)"
      and b: "f_Recv b = NamedReceiver pointer pkg name typeArgs"
      and ab: "FullName a = FullName b"
    for a b pa pointer pkg name typeArgs
  proof -
    from a(1,2) have "FullName a = packagePrefix (Some pa) @ f_Name a"
      by (simp add: FullName_def)
    with ab FullName_named[OF b]
    have "hd (packagePrefix (Some pa) @ f_Name a) = CHR ''(''"
      by simp
    with prefixed_name_hd(3)[OF a(3,4)] show False by simp
  qed
  show False
  proof (cases "f_Recv f")
    case NoReceiver
    show ?thesis
    proof (cases "f_Recv g")
      case g0: NoReceiver
      from e NoReceiver g0 pf(1) pg(1) n
      have "packagePrefix (Some pf) = packagePrefix (Some pg)"
        by (simp add: FullName_def)
      from packagePrefix_path[OF this] ne show ?thesis by simp
    next
      case InterfaceReceiver
      with g show ?thesis by (simp add: qualifiedBy_def)
    next
      case (NamedReceiver pointer pkg name typeArgs)
      from plain_named[OF NoReceiver pf NamedReceiver e] show ?thesis .
    qed
  next
    case InterfaceReceiver
    with f show ?thesis by (simp add: qualifiedBy_def)
  next
    case (NamedReceiver pointer pkg name typeArgs)
    with f have rf: "pkg = Some pf" "identifierText name" "typeArgsText typeArgs"
      by (simp_all add: qualifiedBy_def)
    show ?thesis
    proof (cases "f_Recv g")
      case NoReceiver
      from plain_named[OF NoReceiver pg NamedReceiver e[symmetric]] show ?thesis .
    next
      case InterfaceReceiver
      with g show ?thesis by (simp add: qualifiedBy_def)
    next
      case g1: (NamedReceiver pointer' pkg' name' typeArgs')
      with g have rg: "pkg' = Some pg" "identifierText name'" "typeArgsText typeArgs'"
        by (simp_all add: qualifiedBy_def)
      from e FullName_named[OF NamedReceiver] FullName_named[OF g1] n
      have "receiverText pointer pkg name @ typeArgs =
            receiverText pointer' pkg' name' @ typeArgs'"
        by simp
      from split_first[OF this[unfolded rf(1) rg(1)]
          receiverText_bracket[OF pf(2) rf(2)] receiverText_bracket[OF pg(2) rg(2)]]
        rf(3) rg(3)
      have "receiverText pointer (Some pf) name = receiverText pointer' (Some pg) name'"
        by (simp add: typeArgsText_def)
      from receiverText_path[OF this pf(2) pg(2) rf(2) rg(2)] ne show ?thesis by simp
    qed
  qed
qed

lemma result_type_once:
  assumes run: "performRecursiveAnalysis target depth pkgs = Some (Inr (res, err))"
    and log: "expansionLog depth (projectPackages_of pkgs) (typePkgMap_of pkgs)
                (initialTraversal target) = Some log"
    and t: "t \<in> set log" "Body (Fn (Target t)) = Some stmts"
    and u: "u \<in> set (directTypes (TypesInfo (Pkg (Target t))) (projectPackages_of pkgs) stmts)"
  shows "occurrences (typeKey u) (ReferencedTypes res) = 1"
proof -
  from result_complete[OF run log t] u have "typeKey u \<in> namesOf (ReferencedTypes res)"
    by blast
  with result_distinct[OF run] show ?thesis
    by (simp add: occurrences_once)
qed

lemma result_func_entry:
  assumes run: "performRecursiveAnalysis target depth pkgs = Some (Inr (res, err))"
    and k: "k \<in> namesOf (CalledFuncs res)"
  shows "\<exists>v. map_of (CalledFuncs res) k = Some v \<and> FullName v = k"
proof -
  from recorded_lookup[OF k] obtain v where
    v: "map_of (CalledFuncs res) k = Some v" "(k, v) \<in> set (CalledFuncs res)"
    by blast
  from result_inScope[OF run, THEN conjunct1, rule_format, OF v(2)] have "k = FullName v"
    by simp
  with v(1) show ?thesis by blast
qed

lemma result_type_entry:
  assumes run: "performRecursiveAnalysis target depth pkgs = Some (Inr (res, err))"
    and k: "k \<in> namesOf (ReferencedTypes res)"
  shows "\<exists>v. map_of (ReferencedTypes res) k = Some v \<and> typeKey (ti_Definition v) = k"
proof -
  from recorded_lookup[OF k] obtain v where
    v: "map_of (ReferencedTypes res) k = Some v" "(k, v) \<in> set (ReferencedTypes res)"
    by blast
  from result_inScope[OF run, THEN conjunct2, rule_format, OF v(2)]
  have "k = typeKey (ti_Definition v)" by simp
  with v(1) show ?thesis by blast
qed
section \<open>Properties of the tracer\<close>

text \<open>
  C1. In the project where \<open>A\<close> calls \<open>B\<close> and \<open>C\<close> and refers to \<open>T\<close>, and \<open>B\<close> calls
  \<open>D\<close> and refers to \<open>U\<close>, the traversal of \<open>A\<close> with depth 1 should yield the callables
  \<open>B\<close>, \<open>C\<close> and the type \<open>T\<close> only; the descriptions of the tools \<open>called_funcs\<close> and
  \<open>ref_types\<close> say the same (1 = immediate calls only, direct types only). The code
  yields the callables \<open>B\<close>, \<open>C\<close>, \<open>D\<close> and the types \<open>T\<close>, \<open>U\<close> with depth 1, the result
  it also yields with depth 2, and yields \<open>B\<close>, \<open>C\<close> and \<open>T\<close> with depth 0: the test
  \<open>currentTask.Depth < depth\<close> only guards the queueing of a callee, and a queued
  callee of depth 1 is expanded, so the bound is off by one.
\<close>

theorem C1_depth_one_off_by_one:
  "performRecursiveAnalysis scen_target 1 [scen_pkg] = Some (Inr (scen_all, None)) \<and>
   namesOf (CalledFuncs scen_all) = {''p.B'', ''p.C'', ''p.D''} \<and>
   namesOf (ReferencedTypes scen_all) = {''p.T'', ''p.U''} \<and>
   ''p.D'' \<in> namesOf (CalledFuncs scen_all) \<and>
   namesOf (CalledFuncs scen_all) \<noteq> {''p.B'', ''p.C''} \<and>
   ''p.U'' \<in> namesOf (ReferencedTypes scen_all) \<and>
   namesOf (ReferencedTypes scen_all) \<noteq> {''p.T''} \<and>
   performRecursiveAnalysis scen_target 2 [scen_pkg] = Some (Inr (scen_all, None)) \<and>
   performRecursiveAnalysis scen_target 0 [scen_pkg] = Some (Inr (scen_direct, None)) \<and>
   namesOf (CalledFuncs scen_direct) = {''p.B'', ''p.C''} \<and>
   namesOf (ReferencedTypes scen_direct) = {''p.T''}"
proof -
  have r1: "performRecursiveAnalysis scen_target 1 [scen_pkg] = Some (Inr (scen_all, None))"
    by code_simp
  have r2: "performRecursiveAnalysis scen_target 2 [scen_pkg] = Some (Inr (scen_all, None))"
    by code_simp
  have r0: "performRecursiveAnalysis scen_target 0 [scen_pkg] = Some (Inr (scen_direct, None))"
    by code_simp
  have fa: "namesOf (CalledFuncs scen_all) = {''p.B'', ''p.C'', ''p.D''}"
    and fd: "namesOf (CalledFuncs scen_direct) = {''p.B'', ''p.C''}"
    by (simp_all add: namesOf_def scen_direct_def scen_all_def)
  have ta: "namesOf (ReferencedTypes scen_all) = {''p.T'', ''p.U''}"
    and td: "namesOf (ReferencedTypes scen_direct) = {''p.T''}"
    by (simp_all add: namesOf_def scen_direct_def scen_all_def scen_typeInfo_def
        scen_T_def scen_U_def)
  have d: "''p.D'' \<in> namesOf (CalledFuncs scen_all)"
    by (simp add: namesOf_def scen_all_def)
  have nd: "namesOf (CalledFuncs scen_all) \<noteq> {''p.B'', ''p.C''}"
  proof
    assume "namesOf (CalledFuncs scen_all) = {''p.B'', ''p.C''}"
    with d have "''p.D'' \<in> {''p.B'', ''p.C''}" by simp
    then show False by simp
  qed
  have u: "''p.U'' \<in> namesOf (ReferencedTypes scen_all)"
    by (simp add: namesOf_def scen_all_def scen_typeInfo_def scen_T_def scen_U_def)
  have nu: "namesOf (ReferencedTypes scen_all) \<noteq> {''p.T''}"
  proof
    assume "namesOf (ReferencedTypes scen_all) = {''p.T''}"
    with u have "''p.U'' \<in> {''p.T''}" by simp
    then show False by simp
  qed
  show ?thesis
    by (intro conjI) (fact r1 r2 r0 fa fd ta td d nd u nu)+
qed

text \<open>
  C2 (as amended). Let the traversal return. Each of the two result maps holds every
  discovered name once. The outcomes of \<open>ExtractCalledFuncs\<close> are exactly the lists that
  hold every name of the callable result map once, in any order, each returned with a
  nil error, and likewise \<open>ExtractTypes\<close> for the type result map; so two runs return
  lists that are permutations of each other. Every report that \<open>Analyze\<close> returns
  begins with the summary written for some order of enumeration, whose two name lists
  hold exactly the names of the result maps, each once. The order of the names is the
  order in which \<open>range\<close> enumerates a Go map, which is not determined.
\<close>

theorem C2_names_up_to_order:
  assumes run: "performRecursiveAnalysis target depth pkgs = Some (Inr (res, err))"
  shows "distinct (map fst (CalledFuncs res)) \<and> distinct (map fst (ReferencedTypes res)) \<and>
   ExtractCalledFuncs target depth pkgs =
     {Some (Inr (names, None)) | names.
      distinct names \<and> set names = namesOf (CalledFuncs res)} \<and>
   ExtractTypes target depth pkgs =
     {Some (Inr (names, None)) | names.
      distinct names \<and> set names = namesOf (ReferencedTypes res)} \<and>
   (\<forall>n1 e1 n2 e2.
      Some (Inr (n1, e1)) \<in> ExtractCalledFuncs target depth pkgs \<longrightarrow>
      Some (Inr (n2, e2)) \<in> ExtractCalledFuncs target depth pkgs \<longrightarrow> mset n1 = mset n2) \<and>
   (\<forall>n1 e1 n2 e2.
      Some (Inr (n1, e1)) \<in> ExtractTypes target depth pkgs \<longrightarrow>
      Some (Inr (n2, e2)) \<in> ExtractTypes target depth pkgs \<longrightarrow> mset n1 = mset n2) \<and>
   (\<forall>report e.
      Some (Inr (report, e)) \<in> Analyze target file depth pkgs \<longrightarrow>
      (\<exists>orders blocks.
         rangeOrders_of res orders \<and>
         report = reportSummary orders target file depth res @ blocks \<and>
         distinct (map fst (summaryFuncs orders)) \<and>
         set (map fst (summaryFuncs orders)) = namesOf (CalledFuncs res) \<and>
         distinct (map fst (summaryTypes orders)) \<and>
         set (map fst (summaryTypes orders)) = namesOf (ReferencedTypes res) \<and>
         (CalledFuncs res \<noteq> [] \<longrightarrow>
            (\<exists>a b. reportSummary orders target file depth res =
                    a @ nameLines (map fst (summaryFuncs orders)) @ b)) \<and>
         (ReferencedTypes res \<noteq> [] \<longrightarrow>
            (\<exists>a b. reportSummary orders target file depth res =
                    a @ nameLines (map fst (summaryTypes orders)) @ b))))"
proof -
  from run have "err = None" by (rule performRecursiveAnalysis_Inr)
  with run have run': "performRecursiveAnalysis target depth pkgs = Some (Inr (res, None))"
    by simp
  note d = result_distinct[OF run]
  have f: "ExtractCalledFuncs target depth pkgs =
     {Some (Inr (names, None)) | names.
      distinct names \<and> set names = namesOf (CalledFuncs res)}"
    unfolding ExtractCalledFuncs_def run' using go_range_outcomes[OF d[THEN conjunct1]]
    by simp
  have t: "ExtractTypes target depth pkgs =
     {Some (Inr (names, None)) | names.
      distinct names \<and> set names = namesOf (ReferencedTypes res)}"
    unfolding ExtractTypes_def run' using go_range_outcomes[OF d[THEN conjunct2]]
    by simp
  have pf: "\<forall>n1 e1 n2 e2.
      Some (Inr (n1, e1)) \<in> ExtractCalledFuncs target depth pkgs \<longrightarrow>
      Some (Inr (n2, e2)) \<in> ExtractCalledFuncs target depth pkgs \<longrightarrow> mset n1 = mset n2"
    unfolding f using set_eq_iff_mset_eq_distinct by blast
  have pt: "\<forall>n1 e1 n2 e2.
      Some (Inr (n1, e1)) \<in> ExtractTypes target depth pkgs \<longrightarrow>
      Some (Inr (n2, e2)) \<in> ExtractTypes target depth pkgs \<longrightarrow> mset n1 = mset n2"
    unfolding t using set_eq_iff_mset_eq_distinct by blast
  have a: "\<exists>orders blocks.
         rangeOrders_of res orders \<and>
         report = reportSummary orders target file depth res @ blocks \<and>
         distinct (map fst (summaryFuncs orders)) \<and>
         set (map fst (summaryFuncs orders)) = namesOf (CalledFuncs res) \<and>
         distinct (map fst (summaryTypes orders)) \<and>
         set (map fst (summaryTypes orders)) = namesOf (ReferencedTypes res) \<and>
         (CalledFuncs res \<noteq> [] \<longrightarrow>
            (\<exists>a b. reportSummary orders target file depth res =
                    a @ nameLines (map fst (summaryFuncs orders)) @ b)) \<and>
         (ReferencedTypes res \<noteq> [] \<longrightarrow>
            (\<exists>a b. reportSummary orders target file depth res =
                    a @ nameLines (map fst (summaryTypes orders)) @ b))"
    if "Some (Inr (report, e)) \<in> Analyze target file depth pkgs" for report e
  proof -
    from run that obtain orders blocks where o: "rangeOrders_of res orders"
      and r: "report = reportSummary orders target file depth res @ blocks"
      by (rule Analyze_Inr)
    note n = rangeOrders_names[OF run o]
    from o r n reportSummary_funcs[of res orders target "file" depth]
      reportSummary_types[of res orders target "file" depth]
    show ?thesis by blast
  qed
  then have a': "\<forall>report e.
      Some (Inr (report, e)) \<in> Analyze target file depth pkgs \<longrightarrow>
      (\<exists>orders blocks.
         rangeOrders_of res orders \<and>
         report = reportSummary orders target file depth res @ blocks \<and>
         distinct (map fst (summaryFuncs orders)) \<and>
         set (map fst (summaryFuncs orders)) = namesOf (CalledFuncs res) \<and>
         distinct (map fst (summaryTypes orders)) \<and>
         set (map fst (summaryTypes orders)) = namesOf (ReferencedTypes res) \<and>
         (CalledFuncs res \<noteq> [] \<longrightarrow>
            (\<exists>a b. reportSummary orders target file depth res =
                    a @ nameLines (map fst (summaryFuncs orders)) @ b)) \<and>
         (ReferencedTypes res \<noteq> [] \<longrightarrow>
            (\<exists>a b. reportSummary orders target file depth res =
                    a @ nameLines (map fst (summaryTypes orders)) @ b)))"
    by blast
  show ?thesis
    by (intro conjI) (fact d[THEN conjunct1] d[THEN conjunct2] f t pf pt a')+
qed

theorem C2_names_up_to_order_witness:
  "performRecursiveAnalysis scen_target 0 [scen_pkg] = Some (Inr (scen_direct, None)) \<and>
   namesOf (CalledFuncs scen_direct) = {''p.B'', ''p.C''} \<and>
   Some (Inr ([''p.B'', ''p.C''], None)) \<in> ExtractCalledFuncs scen_target 0 [scen_pkg] \<and>
   Some (Inr ([''p.C'', ''p.B''], None)) \<in> ExtractCalledFuncs scen_target 0 [scen_pkg] \<and>
   Some (Inr ([], None)) \<notin> ExtractCalledFuncs scen_target 0 [scen_pkg] \<and>
   Some (Inr ([''p.B'', ''p.C'', ''p.B''], None)) \<notin>
     ExtractCalledFuncs scen_target 0 [scen_pkg] \<and>
   Some (Inr ([''p.T''], None)) \<in> ExtractTypes scen_target 0 [scen_pkg] \<and>
   mset [''p.B'', ''p.C''] = mset [''p.C'', ''p.B'']"
proof -
  have run: "performRecursiveAnalysis scen_target 0 [scen_pkg] = Some (Inr (scen_direct, None))"
    by code_simp
  note C2 = C2_names_up_to_order[OF run]
  have n: "namesOf (CalledFuncs scen_direct) = {''p.B'', ''p.C''}"
    by (simp add: namesOf_def scen_direct_def)
  have nt: "namesOf (ReferencedTypes scen_direct) = {''p.T''}"
    by (simp add: namesOf_def scen_direct_def scen_typeInfo_def scen_T_def)
  note f = C2[THEN conjunct2, THEN conjunct2, THEN conjunct1, unfolded n]
  note t = C2[THEN conjunct2, THEN conjunct2, THEN conjunct2, THEN conjunct1, unfolded nt]
  have m1: "Some (Inr ([''p.B'', ''p.C''], None)) \<in> ExtractCalledFuncs scen_target 0 [scen_pkg]"
    unfolding f by simp
  have m2: "Some (Inr ([''p.C'', ''p.B''], None)) \<in> ExtractCalledFuncs scen_target 0 [scen_pkg]"
    unfolding f by (simp add: insert_commute)
  have m3: "Some (Inr ([], None)) \<notin> ExtractCalledFuncs scen_target 0 [scen_pkg]"
    unfolding f by simp
  have m4: "Some (Inr ([''p.B'', ''p.C'', ''p.B''], None)) \<notin>
     ExtractCalledFuncs scen_target 0 [scen_pkg]"
    unfolding f by simp
  have m5: "Some (Inr ([''p.T''], None)) \<in> ExtractTypes scen_target 0 [scen_pkg]"
    unfolding t by simp
  have p: "mset [''p.B'', ''p.C''] = mset [''p.C'', ''p.B'']"
    by (rule C2[THEN conjunct2, THEN conjunct2, THEN conjunct2, THEN conjunct2, THEN conjunct1,
          rule_format, OF m1 m2])
  show ?thesis
    by (intro conjI) (fact run n m1 m2 m3 m4 m5 p)+
qed

text \<open>
  C2 as stated fails: for the same target, depth and packages, \<open>ExtractCalledFuncs\<close>
  can return the two names in either order, so two runs need not return identical
  lists, and the order of discovery is not the order of the output.
\<close>

theorem C2_order_counterexample:
  "Some (Inr ([''p.B'', ''p.C''], None)) \<in> ExtractCalledFuncs scen_target 0 [scen_pkg] \<and>
   Some (Inr ([''p.C'', ''p.B''], None)) \<in> ExtractCalledFuncs scen_target 0 [scen_pkg] \<and>
   [''p.B'', ''p.C''] \<noteq> [''p.C'', ''p.B'']"
proof -
  have ne: "[''p.B'', ''p.C''] \<noteq> [''p.C'', ''p.B'']"
    by simp
  show ?thesis
    by (intro conjI) (fact scen_extract_orders ne)+
qed

text \<open>
  C3. For a target that resolves to a function and has a body, the traversal with
  depth 0 returns without error; the names in its callable result set are exactly the
  names of the direct callable references of the target's body, the names in its type
  result set exactly those of the direct type references, every recorded symbol is one
  of these references, and the only task that is expanded is the initial target.
\<close>

theorem C3_depth_zero_exact:
  assumes "ObjectOf (TypesInfo (Pkg target)) (Name (Fn target)) = Some (ObjFunc fnObj)"
    and "Body (Fn target) = Some stmts"
  shows "\<exists>res. performRecursiveAnalysis target 0 pkgs = Some (Inr (res, None)) \<and>
           namesOf (CalledFuncs res) =
             FullName ` set (directCallables (TypesInfo (Pkg target))
                               (projectPackages_of pkgs) stmts) \<and>
           snd ` set (CalledFuncs res) \<subseteq>
             set (directCallables (TypesInfo (Pkg target)) (projectPackages_of pkgs) stmts) \<and>
           namesOf (ReferencedTypes res) =
             typeKey ` set (directTypes (TypesInfo (Pkg target))
                              (projectPackages_of pkgs) stmts) \<and>
           (ti_Definition \<circ> snd) ` set (ReferencedTypes res) \<subseteq>
             set (directTypes (TypesInfo (Pkg target)) (projectPackages_of pkgs) stmts) \<and>
           expansionLog 0 (projectPackages_of pkgs) (typePkgMap_of pkgs)
             (initialTraversal target) = Some [\<lparr>Target = target, Depth = 0\<rparr>]"
proof -
  let ?scope = "projectPackages_of pkgs" and ?tpm = "typePkgMap_of pkgs"
  let ?s = "initialTraversal target"
  let ?task = "\<lparr>Target = target, Depth = 0\<rparr>"
  have q: "queue ?s \<noteq> []" "hd (queue ?s) = ?task" "tl (queue ?s) = []"
    "processedFuncs ?s = {}" "allCalledFuncs ?s = []" "allReferencedTypes ?s = []"
    by (simp_all add: initialTraversal_def)
  have "\<not> (\<exists>p. loopBody 0 ?scope ?tpm ?s = Inl p)"
    using loopBody_Inl[OF q(1), of 0 ?scope ?tpm] assms by (auto simp: q)
  then obtain s' where body: "loopBody 0 ?scope ?tpm ?s = Inr s'"
    by (cases "loopBody 0 ?scope ?tpm ?s") auto
  have e: "expandedTask ?s = [?task]"
    using assms(1) by (simp add: expandedTask_def initialTraversal_def)
  from q(1) body show ?thesis
  proof (cases rule: loopBody_step_cases)
    case skip
    with e show ?thesis by simp
  next
    case (expand stmts' added new addedTypes)
    from expand(4) assms(2) have st: "stmts' = stmts" by (simp add: q)
    from expand(10) have "new = []" by (cases new) (auto simp: q)
    with expand(6) have empty: "queue s' = []" by (simp add: q)
    have run: "runQueue 0 ?scope ?tpm ?s = Some (Inr s')"
      using runQueue_step[OF q(1) body] runQueue_empty[OF empty] by simp
    have log: "expansionLog 0 ?scope ?tpm ?s = Some [?task]"
      using expansionLog_step[OF q(1) body] expansionLog_empty[OF empty] e by simp
    let ?res = "\<lparr>CalledFuncs = allCalledFuncs s', ReferencedTypes = allReferencedTypes s'\<rparr>"
    have 1: "performRecursiveAnalysis target 0 pkgs = Some (Inr (?res, None))"
      by (simp add: performRecursiveAnalysis_def run)
    have 2: "namesOf (CalledFuncs ?res) =
             FullName ` set (directCallables (TypesInfo (Pkg target)) ?scope stmts)"
      using expand(7) by (simp add: q st namesOf_def)
    have 3: "snd ` set (CalledFuncs ?res) \<subseteq>
             set (directCallables (TypesInfo (Pkg target)) ?scope stmts)"
      using expand(5,9) by (auto simp: q st)
    have 4: "namesOf (ReferencedTypes ?res) =
             typeKey ` set (directTypes (TypesInfo (Pkg target)) ?scope stmts)"
      using expand(13) by (simp add: q st namesOf_def)
    have 5: "(ti_Definition \<circ> snd) ` set (ReferencedTypes ?res) \<subseteq>
             set (directTypes (TypesInfo (Pkg target)) ?scope stmts)"
      using expand(12,15) by (auto simp: q st)
    from 1 2 3 4 5 log show ?thesis by blast
  qed
qed

theorem C3_depth_zero_exact_witness:
  "ObjectOf (TypesInfo (Pkg scen_target)) (Name (Fn scen_target)) = Some (ObjFunc scen_A) \<and>
   Body (Fn scen_target) =
     Some [OtherNode [IdentNode (Ident 11 ''B''), IdentNode (Ident 12 ''T'')],
           OtherNode [IdentNode (Ident 13 ''C'')]] \<and>
   (\<exists>res. performRecursiveAnalysis scen_target 0 [scen_pkg] = Some (Inr (res, None)) \<and>
      namesOf (CalledFuncs res) = {''p.B'', ''p.C''} \<and>
      namesOf (ReferencedTypes res) = {''p.T''})"
proof -
  let ?stmts = "[OtherNode [IdentNode (Ident 11 ''B''), IdentNode (Ident 12 ''T'')],
                 OtherNode [IdentNode (Ident 13 ''C'')]]"
  have h1: "ObjectOf (TypesInfo (Pkg scen_target)) (Name (Fn scen_target)) =
            Some (ObjFunc scen_A)"
    by code_simp
  have h2: "Body (Fn scen_target) = Some ?stmts"
    by (simp add: scen_target_def scen_declA_def)
  have c: "directCallables (TypesInfo (Pkg scen_target)) (projectPackages_of [scen_pkg]) ?stmts
           = [scen_B, scen_C]"
    by code_simp
  have t: "directTypes (TypesInfo (Pkg scen_target)) (projectPackages_of [scen_pkg]) ?stmts
           = [scen_T]"
    by code_simp
  have n: "FullName ` set [scen_B, scen_C] = {''p.B'', ''p.C''}"
    "typeKey ` set [scen_T] = {''p.T''}"
    by (simp_all add: FullName_def packagePrefix_def typeKey_def scen_B_def scen_C_def scen_T_def
        scen_types_def)
  from C3_depth_zero_exact[OF h1 h2, of "[scen_pkg]"] obtain res where
    r: "performRecursiveAnalysis scen_target 0 [scen_pkg] = Some (Inr (res, None))"
       "namesOf (CalledFuncs res) =
          FullName ` set (directCallables (TypesInfo (Pkg scen_target))
                            (projectPackages_of [scen_pkg]) ?stmts)"
       "namesOf (ReferencedTypes res) =
          typeKey ` set (directTypes (TypesInfo (Pkg scen_target))
                           (projectPackages_of [scen_pkg]) ?stmts)"
    by (elim exE conjE) (rule that; assumption)
  have rc: "namesOf (CalledFuncs res) = {''p.B'', ''p.C''}"
    by (simp only: r(2) c n(1))
  have rt: "namesOf (ReferencedTypes res) = {''p.T''}"
    by (simp only: r(3) t n(2))
  show ?thesis
    by (intro conjI exI[of _ res]) (fact h1 h2 r(1) rc rt)+
qed

text \<open>
  C6 (as amended). Let the traversal return, and let the package of every recorded type
  be a key of \<open>typePkgMap\<close>. Then \<open>Analyze\<close> is not aborted: its outcomes are exactly
  the reports, one for every order of enumeration, that consist of the header, the
  target's source and the summary followed by the blocks of the dependencies, each
  returned with a nil error; no outcome is a panic, an error or a run without end.
  Every recorded name has its line in the summary; and a callable or a type whose
  declaration cannot be located or printed has no block at all: its pass of the
  snippet loop leaves the report as it was, and no placeholder is written.
\<close>

theorem C6_degradation_without_placeholder:
  assumes run: "performRecursiveAnalysis target depth pkgs = Some (Inr (res, err))"
    and orders: "rangeOrders_of res orders"
    and loaded: "\<forall>e \<in> set (ReferencedTypes res). packageLoaded (typePkgMap_of pkgs) e"
  shows "Analyze target file depth pkgs =
           {Some (Inr (reportSummary os target file depth res @
                       concat (map (funcBlock (typePkgMap_of pkgs)) (snippetFuncs os)) @
                       concat (map (typeBlock (typePkgMap_of pkgs)) (snippetTypes os)), None))
            | os. rangeOrders_of res os} \<and>
         (\<forall>out \<in> Analyze target file depth pkgs. \<exists>report. out = Some (Inr (report, None))) \<and>
         Some (Inr (reportSummary orders target file depth res @
                    concat (map (funcBlock (typePkgMap_of pkgs)) (snippetFuncs orders)) @
                    concat (map (typeBlock (typePkgMap_of pkgs)) (snippetTypes orders)), None))
           \<in> Analyze target file depth pkgs \<and>
         (\<forall>name \<in> namesOf (CalledFuncs res) \<union> namesOf (ReferencedTypes res).
            \<exists>a b. reportSummary orders target file depth res =
                    a @ (''- '' @ name @ newline) @ b) \<and>
         (\<forall>name fn report.
            (\<forall>tp defPkg. f_Pkg fn = Some tp \<longrightarrow> map_of (typePkgMap_of pkgs) tp = Some defPkg \<longrightarrow>
               (\<exists>e. getFuncSourceSnippet defPkg (f_Pos fn) = Inl e)) \<longrightarrow>
            funcBlock (typePkgMap_of pkgs) (name, fn) = [] \<and>
            writeFuncSnippet (typePkgMap_of pkgs) (name, fn) report = Inr report) \<and>
         (\<forall>name info report.
            packageLoaded (typePkgMap_of pkgs) (name, info) \<longrightarrow>
            (\<forall>tp defPkg. t_Pkg (ti_Definition info) = Some tp \<longrightarrow>
               map_of (typePkgMap_of pkgs) tp = Some defPkg \<longrightarrow>
               (\<exists>e. typeSnippetIn (Syntax defPkg) (t_Pos (ti_Definition info)) = Inl e)) \<longrightarrow>
            typeBlock (typePkgMap_of pkgs) (name, info) = [] \<and>
            writeTypeSnippet (typePkgMap_of pkgs) (name, info) report = Inr report)"
proof -
  let ?tpm = "typePkgMap_of pkgs"
  let ?report = "\<lambda>os. reportSummary os target file depth res @
                       concat (map (funcBlock ?tpm) (snippetFuncs os)) @
                       concat (map (typeBlock ?tpm) (snippetTypes os))"
  from run have "err = None"
    by (rule performRecursiveAnalysis_Inr)
  with run have run': "performRecursiveAnalysis target depth pkgs = Some (Inr (res, None))"
    by simp
  have build: "buildReport os target file depth pkgs res = Inr (?report os)"
    if o: "rangeOrders_of res os" for os
  proof -
    from o have "go_range (ReferencedTypes res) (snippetTypes os)"
      by (simp add: rangeOrders_of_def)
    then have "set (snippetTypes os) = set (ReferencedTypes res)"
      unfolding go_range_def by (rule mset_eq_setD)
    with loaded have "\<forall>e \<in> set (snippetTypes os). packageLoaded ?tpm e"
      by simp
    then show ?thesis by (rule buildReport_blocks)
  qed
  have 0: "Analyze target file depth pkgs =
           {Some (Inr (?report os, None)) | os. rangeOrders_of res os}"
    (is "_ = ?R")
  proof -
    have "Analyze target file depth pkgs =
          {Some (case buildReport os target file depth pkgs res of
                   Inl p \<Rightarrow> Inl p
                 | Inr report \<Rightarrow> Inr (report, None)) | os. rangeOrders_of res os}"
      by (simp add: Analyze_def run')
    also have "\<dots> = ?R"
    proof (rule Collect_cong)
      fix out :: "string outcome"
      show "(\<exists>os. out = Some (case buildReport os target file depth pkgs res of
                   Inl p \<Rightarrow> Inl p
                 | Inr report \<Rightarrow> Inr (report, None)) \<and> rangeOrders_of res os) =
            (\<exists>os. out = Some (Inr (?report os, None)) \<and> rangeOrders_of res os)"
      proof
        assume "\<exists>os. out = Some (case buildReport os target file depth pkgs res of
                   Inl p \<Rightarrow> Inl p
                 | Inr report \<Rightarrow> Inr (report, None)) \<and> rangeOrders_of res os"
        then obtain os where
          "out = Some (case buildReport os target file depth pkgs res of
                   Inl p \<Rightarrow> Inl p
                 | Inr report \<Rightarrow> Inr (report, None))" "rangeOrders_of res os"
          by (elim exE conjE)
        with build[of os] have "out = Some (Inr (?report os, None)) \<and> rangeOrders_of res os"
          by simp
        then show "\<exists>os. out = Some (Inr (?report os, None)) \<and> rangeOrders_of res os" ..
      next
        assume "\<exists>os. out = Some (Inr (?report os, None)) \<and> rangeOrders_of res os"
        then obtain os where "out = Some (Inr (?report os, None))" "rangeOrders_of res os"
          by (elim exE conjE)
        with build[of os]
        have "out = Some (case buildReport os target file depth pkgs res of
                   Inl p \<Rightarrow> Inl p
                 | Inr report \<Rightarrow> Inr (report, None)) \<and> rangeOrders_of res os"
          by simp
        then show "\<exists>os. out = Some (case buildReport os target file depth pkgs res of
                   Inl p \<Rightarrow> Inl p
                 | Inr report \<Rightarrow> Inr (report, None)) \<and> rangeOrders_of res os" ..
      qed
    qed
    finally show ?thesis .
  qed
  have 00: "\<forall>out \<in> Analyze target file depth pkgs. \<exists>report. out = Some (Inr (report, None))"
    unfolding 0 by blast
  from orders have gf: "go_range (CalledFuncs res) (summaryFuncs orders)"
    and gt: "go_range (ReferencedTypes res) (summaryTypes orders)"
    by (simp_all add: rangeOrders_of_def)
  from orders have 1: "Some (Inr (?report orders, None)) \<in> Analyze target file depth pkgs"
    unfolding 0 by blast
  have sf: "set (map fst (summaryFuncs orders)) = namesOf (CalledFuncs res)"
    using go_range_names(1)[OF gf, THEN mset_eq_setD] by (simp add: namesOf_def)
  have stt: "set (map fst (summaryTypes orders)) = namesOf (ReferencedTypes res)"
    using go_range_names(1)[OF gt, THEN mset_eq_setD] by (simp add: namesOf_def)
  have 2: "\<exists>a b. reportSummary orders target file depth res =
                    a @ (''- '' @ name @ newline) @ b"
    if "name \<in> namesOf (CalledFuncs res) \<union> namesOf (ReferencedTypes res)" for name
    using that
  proof
    assume n: "name \<in> namesOf (CalledFuncs res)"
    then have "CalledFuncs res \<noteq> []" by (auto simp: namesOf_def)
    from inside_trans[OF reportSummary_funcs[OF this] nameLines_mem] n sf
    show ?thesis by blast
  next
    assume n: "name \<in> namesOf (ReferencedTypes res)"
    then have "ReferencedTypes res \<noteq> []" by (auto simp: namesOf_def)
    from inside_trans[OF reportSummary_types[OF this] nameLines_mem] n stt
    show ?thesis by blast
  qed
  have 3: "funcBlock ?tpm (name, fn) = [] \<and> writeFuncSnippet ?tpm (name, fn) report = Inr report"
    if "\<forall>tp defPkg. f_Pkg fn = Some tp \<longrightarrow> map_of ?tpm tp = Some defPkg \<longrightarrow>
               (\<exists>e. getFuncSourceSnippet defPkg (f_Pos fn) = Inl e)" for name fn report
  proof -
    have "funcBlock ?tpm (name, fn) = []"
      using that by (fastforce simp: funcBlock_def split: option.splits sum.splits)
    with writeFuncSnippet_block[of ?tpm "(name, fn)" report] show ?thesis by simp
  qed
  have 4: "typeBlock ?tpm (name, info) = [] \<and>
           writeTypeSnippet ?tpm (name, info) report = Inr report"
    if "packageLoaded ?tpm (name, info)"
      "\<forall>tp defPkg. t_Pkg (ti_Definition info) = Some tp \<longrightarrow>
               map_of ?tpm tp = Some defPkg \<longrightarrow>
               (\<exists>e. typeSnippetIn (Syntax defPkg) (t_Pos (ti_Definition info)) = Inl e)"
    for name info report
  proof -
    have "typeBlock ?tpm (name, info) = []"
      using that(2) by (fastforce simp: typeBlock_def split: option.splits sum.splits)
    with writeTypeSnippet_block[OF that(1), of report] show ?thesis by simp
  qed
  from 2 have c2: "\<forall>name \<in> namesOf (CalledFuncs res) \<union> namesOf (ReferencedTypes res).
            \<exists>a b. reportSummary orders target file depth res =
                    a @ (''- '' @ name @ newline) @ b" by blast
  from 3 have c3: "\<forall>name fn report.
            (\<forall>tp defPkg. f_Pkg fn = Some tp \<longrightarrow> map_of ?tpm tp = Some defPkg \<longrightarrow>
               (\<exists>e. getFuncSourceSnippet defPkg (f_Pos fn) = Inl e)) \<longrightarrow>
            funcBlock ?tpm (name, fn) = [] \<and>
            writeFuncSnippet ?tpm (name, fn) report = Inr report" by blast
  from 4 have c4: "\<forall>name info report.
            packageLoaded ?tpm (name, info) \<longrightarrow>
            (\<forall>tp defPkg. t_Pkg (ti_Definition info) = Some tp \<longrightarrow>
               map_of ?tpm tp = Some defPkg \<longrightarrow>
               (\<exists>e. typeSnippetIn (Syntax defPkg) (t_Pos (ti_Definition info)) = Inl e)) \<longrightarrow>
            typeBlock ?tpm (name, info) = [] \<and>
            writeTypeSnippet ?tpm (name, info) report = Inr report" by blast
  show ?thesis
    by (intro conjI) (fact 0 00 1 c2 c3 c4)+
qed

theorem C6_degradation_without_placeholder_witness:
  "performRecursiveAnalysis deg_target 0 [deg_pkg] = Some (Inr (deg_result, None)) \<and>
   rangeOrders_of deg_result deg_orders \<and>
   packageLoaded (typePkgMap_of [deg_pkg]) deg_entryT \<and>
   Some (Inr (deg_report, None)) \<in> Analyze deg_target deg_file 0 [deg_pkg] \<and>
   (\<exists>a b. reportSummary deg_orders deg_target deg_file 0 deg_result =
           a @ (''- '' @ ''p.B'' @ newline) @ b) \<and>
   getFuncSourceSnippet deg_pkg (f_Pos deg_B) =
     Inl (Error ''could not find FuncDecl node at position 150'') \<and>
   funcBlock (typePkgMap_of [deg_pkg]) (''p.B'', deg_B) = [] \<and>
   writeFuncSnippet (typePkgMap_of [deg_pkg]) (''p.B'', deg_B) deg_report = Inr deg_report \<and>
   getTypeSourceSnippet (Some deg_pkg) (t_Pos deg_T) =
     Inr (Inl (Error ''could not find TypeSpec node at position 160'')) \<and>
   getTypeSourceSnippet (Some loc_pkg) (t_Pos loc_L) = Inr (Inr ''type L struct{}'') \<and>
   typeBlock (typePkgMap_of [loc_pkg]) loc_entryL =
     snippetHeader ''p.L'' ''a.go'' ''type L struct{}''"
proof -
  have loaded: "\<forall>e \<in> set (ReferencedTypes deg_result).
                  packageLoaded (typePkgMap_of [deg_pkg]) e"
    by (simp add: deg_result_def deg_loaded)
  note C6 = C6_degradation_without_placeholder[OF deg_run deg_range loaded, of deg_file]
  have blocks: "reportSummary deg_orders deg_target deg_file 0 deg_result @
      concat (map (funcBlock (typePkgMap_of [deg_pkg])) (snippetFuncs deg_orders)) @
      concat (map (typeBlock (typePkgMap_of [deg_pkg])) (snippetTypes deg_orders)) = deg_report"
    by code_simp
  have m: "Some (Inr (deg_report, None)) \<in> Analyze deg_target deg_file 0 [deg_pkg]"
    using C6[THEN conjunct2, THEN conjunct2, THEN conjunct1] unfolding blocks .
  have "''p.B'' \<in> namesOf (CalledFuncs deg_result) \<union> namesOf (ReferencedTypes deg_result)"
    by (simp add: namesOf_def deg_result_def deg_entryB_def)
  then have s: "\<exists>a b. reportSummary deg_orders deg_target deg_file 0 deg_result =
           a @ (''- '' @ ''p.B'' @ newline) @ b"
    by (rule C6[THEN conjunct2, THEN conjunct2, THEN conjunct2, THEN conjunct1, rule_format])
  have pk: "f_Pkg deg_B = Some deg_types"
    by (simp add: deg_B_def)
  have tpm: "typePkgMap_of [deg_pkg] = [(deg_types, deg_pkg)]"
    by (simp add: typePkgMap_of_def deg_pkg_def)
  have h: "\<forall>tp defPkg. f_Pkg deg_B = Some tp \<longrightarrow>
             map_of (typePkgMap_of [deg_pkg]) tp = Some defPkg \<longrightarrow>
             (\<exists>e. getFuncSourceSnippet defPkg (f_Pos deg_B) = Inl e)"
  proof (intro allI impI)
    fix tp defPkg
    assume a: "f_Pkg deg_B = Some tp"
      and b: "map_of (typePkgMap_of [deg_pkg]) tp = Some defPkg"
    from a pk have "tp = deg_types" by simp
    with b tpm have "defPkg = deg_pkg" by simp
    with deg_noFunc show "\<exists>e. getFuncSourceSnippet defPkg (f_Pos deg_B) = Inl e"
      by (intro exI) simp
  qed
  note skipped = C6[THEN conjunct2, THEN conjunct2, THEN conjunct2, THEN conjunct2, THEN conjunct1,
      THEN spec[of _ "''p.B''"], THEN spec[of _ deg_B], THEN spec[of _ deg_report],
      THEN mp, OF h]
  show ?thesis
    by (intro conjI)
       (fact deg_run deg_range deg_loaded m s deg_noFunc skipped[THEN conjunct1]
          skipped[THEN conjunct2] deg_noType loc_snippet loc_block)+
qed

text \<open>
  C6 as stated fails: \<open>B\<close> is discovered and its declaration cannot be located, yet the
  one report \<open>Analyze\<close> can return ends with the title of the snippet section; it holds
  no block and no placeholder for \<open>B\<close>.
\<close>

theorem C6_placeholder_counterexample:
  "Analyze deg_target deg_file 0 [deg_pkg] = {Some (Inr (deg_report, None))} \<and>
   performRecursiveAnalysis deg_target 0 [deg_pkg] = Some (Inr (deg_result, None)) \<and>
   namesOf (CalledFuncs deg_result) = {''p.B''} \<and>
   getFuncSourceSnippet deg_pkg (f_Pos deg_B) =
     Inl (Error ''could not find FuncDecl node at position 150'') \<and>
   deg_report = reportSummary deg_orders deg_target deg_file 0 deg_result"
proof -
  have a: "Analyze deg_target deg_file 0 [deg_pkg] = {Some (Inr (deg_report, None))}"
    unfolding Analyze_def deg_run by (simp add: deg_orders_unique deg_build)
  have n: "namesOf (CalledFuncs deg_result) = {''p.B''}"
    by (simp add: namesOf_def deg_result_def deg_entryB_def)
  show ?thesis
    by (intro conjI) (fact a deg_run n deg_noFunc deg_summary[symmetric])+
qed

text \<open>
  C7. A task whose function declaration has no body does not contribute zero
  candidates: the walk over the nil body panics, both when the declaration is the
  initial target and when it is a callee taken from the queue.
\<close>

theorem C7_no_body_panics:
  "performRecursiveAnalysis \<lparr>Pkg = asm_pkg, Fn = asm_declF\<rparr> 0 [asm_pkg] =
     Some (Inl NilPointerDereference) \<and>
   performRecursiveAnalysis \<lparr>Pkg = asm_pkg, Fn = asm_declG\<rparr> 1 [asm_pkg] =
     Some (Inl NilPointerDereference)"
proof -
  have "performRecursiveAnalysis \<lparr>Pkg = asm_pkg, Fn = asm_declF\<rparr> 0 [asm_pkg] =
     Some (Inl NilPointerDereference)"
    by code_simp
  moreover
  have "performRecursiveAnalysis \<lparr>Pkg = asm_pkg, Fn = asm_declG\<rparr> 1 [asm_pkg] =
     Some (Inl NilPointerDereference)"
    by code_simp
  ultimately show ?thesis by blast
qed

text \<open>
  C10. Whenever \<open>performRecursiveAnalysis\<close>, \<open>Analyze\<close>, \<open>ExtractTypes\<close> or
  \<open>ExtractCalledFuncs\<close> returns, the error it returns is nil.
\<close>

theorem C10_error_always_nil:
  "returnedError (performRecursiveAnalysis target depth pkgs) = None \<and>
   (\<forall>out \<in> Analyze target file depth pkgs. returnedError out = None) \<and>
   (\<forall>out \<in> ExtractTypes target depth pkgs. returnedError out = None) \<and>
   (\<forall>out \<in> ExtractCalledFuncs target depth pkgs. returnedError out = None)"
proof -
  have p: "returnedError (performRecursiveAnalysis target depth pkgs) = None"
    by (simp add: performRecursiveAnalysis_def split: option.splits sum.splits)
  have shape: "performRecursiveAnalysis target depth pkgs = None \<or>
    (\<exists>pn. performRecursiveAnalysis target depth pkgs = Some (Inl pn)) \<or>
    (\<exists>res. performRecursiveAnalysis target depth pkgs = Some (Inr (res, None)))"
    by (simp add: performRecursiveAnalysis_def split: option.splits sum.splits)
  have wrap: "returnedError (Some (case r of Inl pn \<Rightarrow> Inl pn
                                     | Inr report \<Rightarrow> Inr (report, None))) = None"
    for r :: "panic + string"
    by (cases r) simp_all
  have a: "\<forall>out \<in> Analyze target file depth pkgs. returnedError out = None"
    using shape
  proof (elim disjE exE)
    fix res
    assume "performRecursiveAnalysis target depth pkgs = Some (Inr (res, None))"
    then show ?thesis
      by (auto simp: Analyze_def wrap simp del: returnedError.simps)
  qed (simp_all add: Analyze_def)
  have t: "\<forall>out \<in> ExtractTypes target depth pkgs. returnedError out = None"
    using shape by (auto simp: ExtractTypes_def)
  have c: "\<forall>out \<in> ExtractCalledFuncs target depth pkgs. returnedError out = None"
    using shape by (auto simp: ExtractCalledFuncs_def)
  from p a t c show ?thesis by blast
qed

theorem C10_error_always_nil_witness:
  "Some (Inr ([''p.B'', ''p.C''], None)) \<in> ExtractCalledFuncs scen_target 0 [scen_pkg] \<and>
   returnedError (Some (Inr ([''p.B'', ''p.C''], None)) :: string list outcome) = None"
proof -
  have r: "performRecursiveAnalysis scen_target 0 [scen_pkg] = Some (Inr (scen_direct, None))"
    by code_simp
  have "go_range (CalledFuncs scen_direct) [(''p.B'', scen_B), (''p.C'', scen_C)]"
    by (simp add: go_range_def scen_direct_def)
  then have m: "Some (Inr ([''p.B'', ''p.C''], None))
      \<in> ExtractCalledFuncs scen_target 0 [scen_pkg]"
    unfolding ExtractCalledFuncs_def r by force
  with C10_error_always_nil[of scen_target 0 "[scen_pkg]"] show ?thesis
    by blast
qed




text \<open>
  C5. When the traversal returns, every callable and every type in the result sets
  belongs to a package whose path is one of the package paths of the project; every
  task that was expanded, other than the initial target, is a declaration inside a
  package of the project, found at the position of a recorded callable of the project;
  and the visitor leaves the collector unchanged at an identifier that resolves to a
  symbol whose package path is outside the scope.
\<close>

theorem C5_scope_filtering:
  assumes "performRecursiveAnalysis target depth pkgs = Some (Inr (res, err))"
  shows "(\<forall>e \<in> set (CalledFuncs res).
            \<exists>p. f_Pkg (snd e) = Some p \<and> Path p \<in> PkgPath ` set pkgs) \<and>
         (\<forall>e \<in> set (ReferencedTypes res).
            \<exists>p. t_Pkg (ti_Definition (snd e)) = Some p \<and> Path p \<in> PkgPath ` set pkgs) \<and>
         (\<exists>log. expansionLog depth (projectPackages_of pkgs) (typePkgMap_of pkgs)
                  (initialTraversal target) = Some log \<and>
            (\<forall>t \<in> set log. t = \<lparr>Target = target, Depth = 0\<rparr> \<or>
               (Pkg (Target t) \<in> set pkgs \<and>
                (\<exists>f p. (FullName f, f) \<in> set (CalledFuncs res) \<and> f_Pkg f = Some p \<and>
                   Path p \<in> PkgPath ` set pkgs \<and> Types (Pkg (Target t)) = Some p \<and>
                   findFuncDeclAt (Pkg (Target t)) (f_Pos f) = Some (Fn (Target t)))))) \<and>
         (\<forall>v ident obj p. ObjectOf (rc_Info v) ident = Some obj \<longrightarrow> obj_Pkg obj = Some p \<longrightarrow>
            Path p \<notin> ProjectPackages v \<longrightarrow> Visit v (Some (IdentNode ident)) = Some v)"
proof -
  have pp: "projectPackages_of pkgs = PkgPath ` set pkgs"
    by (simp add: projectPackages_of_def)
  from result_inScope[OF assms] have 1:
    "\<forall>e \<in> set (CalledFuncs res). \<exists>p. f_Pkg (snd e) = Some p \<and> Path p \<in> PkgPath ` set pkgs"
    and 2: "\<forall>e \<in> set (ReferencedTypes res).
            \<exists>p. t_Pkg (ti_Definition (snd e)) = Some p \<and> Path p \<in> PkgPath ` set pkgs"
    unfolding pp by blast+
  from result_origin[OF assms] obtain log where
    log: "expansionLog depth (projectPackages_of pkgs) (typePkgMap_of pkgs)
                 (initialTraversal target) = Some log" and
    origin: "\<forall>t \<in> set log. t = \<lparr>Target = target, Depth = 0\<rparr> \<or>
              fromCallable (projectPackages_of pkgs) (typePkgMap_of pkgs) (CalledFuncs res) t"
    by blast
  have "Pkg (Target t) \<in> set pkgs \<and>
        (\<exists>f p. (FullName f, f) \<in> set (CalledFuncs res) \<and> f_Pkg f = Some p \<and>
           Path p \<in> PkgPath ` set pkgs \<and> Types (Pkg (Target t)) = Some p \<and>
           findFuncDeclAt (Pkg (Target t)) (f_Pos f) = Some (Fn (Target t)))"
    if "fromCallable (projectPackages_of pkgs) (typePkgMap_of pkgs) (CalledFuncs res) t" for t
  proof -
    from that obtain f p where
      f: "(FullName f, f) \<in> set (CalledFuncs res)" "f_Pkg f = Some p"
         "Path p \<in> PkgPath ` set pkgs"
         "map_of (typePkgMap_of pkgs) p = Some (Pkg (Target t))"
         "findFuncDeclAt (Pkg (Target t)) (f_Pos f) = Some (Fn (Target t))"
      unfolding fromCallable_def declaredBy_def pp by (auto split: option.splits)
    from typePkgMap_of_mem[OF f(4)] f show ?thesis by blast
  qed
  with origin log have 3: "\<exists>log. expansionLog depth (projectPackages_of pkgs) (typePkgMap_of pkgs)
                  (initialTraversal target) = Some log \<and>
            (\<forall>t \<in> set log. t = \<lparr>Target = target, Depth = 0\<rparr> \<or>
               (Pkg (Target t) \<in> set pkgs \<and>
                (\<exists>f p. (FullName f, f) \<in> set (CalledFuncs res) \<and> f_Pkg f = Some p \<and>
                   Path p \<in> PkgPath ` set pkgs \<and> Types (Pkg (Target t)) = Some p \<and>
                   findFuncDeclAt (Pkg (Target t)) (f_Pos f) = Some (Fn (Target t)))))"
    by blast
  have 4: "Visit v (Some (IdentNode ident)) = Some v"
    if "ObjectOf (rc_Info v) ident = Some obj" "obj_Pkg obj = Some p"
      "Path p \<notin> ProjectPackages v" for v ident obj p
    using that by (simp add: Visit_def)
  from 1 2 3 4 show ?thesis by blast
qed

theorem C5_scope_filtering_witness:
  "performRecursiveAnalysis ext_target 1 [ext_pkg] = Some (Inr (ext_result, None)) \<and>
   (''p.H'', ext_H) \<in> set (CalledFuncs ext_result) \<and>
   (\<exists>p. f_Pkg ext_H = Some p \<and> Path p \<in> PkgPath ` set [ext_pkg]) \<and>
   ObjectOf (rc_Info ext_collector) (Ident 12 ''Println'') = Some (ObjFunc ext_Println) \<and>
   obj_Pkg (ObjFunc ext_Println) = Some ext_fmt \<and>
   Path ext_fmt \<notin> ProjectPackages ext_collector \<and>
   Visit ext_collector (Some (IdentNode (Ident 12 ''Println''))) = Some ext_collector"
proof -
  have run: "performRecursiveAnalysis ext_target 1 [ext_pkg] = Some (Inr (ext_result, None))"
    by code_simp
  note C5 = C5_scope_filtering[OF run]
  have m: "(''p.H'', ext_H) \<in> set (CalledFuncs ext_result)"
    by (simp add: ext_result_def)
  have s: "\<exists>p. f_Pkg ext_H = Some p \<and> Path p \<in> PkgPath ` set [ext_pkg]"
    by (rule C5[THEN conjunct1, rule_format, OF m, unfolded snd_conv])
  have o: "ObjectOf (rc_Info ext_collector) (Ident 12 ''Println'') = Some (ObjFunc ext_Println)"
    by code_simp
  have p: "obj_Pkg (ObjFunc ext_Println) = Some ext_fmt"
    by (simp add: ext_Println_def)
  have n: "Path ext_fmt \<notin> ProjectPackages ext_collector"
    by (simp add: ext_fmt_def ext_collector_def)
  have v: "Visit ext_collector (Some (IdentNode (Ident 12 ''Println''))) = Some ext_collector"
    by (rule C5[THEN conjunct2, THEN conjunct2, THEN conjunct2, rule_format, OF o p n])
  show ?thesis
    by (intro conjI) (fact run m s o p n v)+
qed

text \<open>
  C9. When the traversal returns, no name occurs twice in the type result set; every
  task that was expanded, other than the initial target, is the function declaration
  found at the position of a recorded callable, and there are at most as many
  expanded tasks as recorded callables, plus one for the initial target; and a pass of
  the loop, which takes one task from the queue, adds at most as many tasks as it adds
  callables to the callable result set, whatever types it records.
\<close>

theorem C9_types_are_leaves:
  assumes "performRecursiveAnalysis target depth pkgs = Some (Inr (res, err))"
  shows "distinct (map fst (ReferencedTypes res)) \<and>
         (\<exists>log. expansionLog depth (projectPackages_of pkgs) (typePkgMap_of pkgs)
                  (initialTraversal target) = Some log \<and>
            (\<forall>t \<in> set log. t = \<lparr>Target = target, Depth = 0\<rparr> \<or>
               (\<exists>f. (FullName f, f) \<in> set (CalledFuncs res) \<and>
                  findFuncDeclAt (Pkg (Target t)) (f_Pos f) = Some (Fn (Target t)))) \<and>
            length log \<le> 1 + length (CalledFuncs res)) \<and>
         (\<forall>s s'. queue s \<noteq> [] \<longrightarrow>
            loopBody depth (projectPackages_of pkgs) (typePkgMap_of pkgs) s = Inr s' \<longrightarrow>
            Suc (length (queue s') + length (allCalledFuncs s))
            \<le> length (queue s) + length (allCalledFuncs s'))"
proof -
  have 1: "distinct (map fst (ReferencedTypes res))"
    using result_distinct[OF assms] by simp
  from result_origin[OF assms] obtain log where
    log: "expansionLog depth (projectPackages_of pkgs) (typePkgMap_of pkgs)
                 (initialTraversal target) = Some log" and
    origin: "\<forall>t \<in> set log. t = \<lparr>Target = target, Depth = 0\<rparr> \<or>
              fromCallable (projectPackages_of pkgs) (typePkgMap_of pkgs) (CalledFuncs res) t"
    and len: "length log \<le> 1 + length (CalledFuncs res)"
    by blast
  have "\<exists>f. (FullName f, f) \<in> set (CalledFuncs res) \<and>
            findFuncDeclAt (Pkg (Target t)) (f_Pos f) = Some (Fn (Target t))"
    if "fromCallable (projectPackages_of pkgs) (typePkgMap_of pkgs) (CalledFuncs res) t" for t
    using that unfolding fromCallable_def declaredBy_def by (auto split: option.splits)
  with origin log len have 2: "\<exists>log. expansionLog depth (projectPackages_of pkgs)
        (typePkgMap_of pkgs) (initialTraversal target) = Some log \<and>
            (\<forall>t \<in> set log. t = \<lparr>Target = target, Depth = 0\<rparr> \<or>
               (\<exists>f. (FullName f, f) \<in> set (CalledFuncs res) \<and>
                  findFuncDeclAt (Pkg (Target t)) (f_Pos f) = Some (Fn (Target t)))) \<and>
            length log \<le> 1 + length (CalledFuncs res)"
    by blast
  have 3: "Suc (length (queue s') + length (allCalledFuncs s))
            \<le> length (queue s) + length (allCalledFuncs s')"
    if "queue s \<noteq> []"
      "loopBody depth (projectPackages_of pkgs) (typePkgMap_of pkgs) s = Inr s'" for s s'
    using that
  proof (cases rule: loopBody_step_cases)
    case skip
    with that(1) show ?thesis by (cases "queue s") simp_all
  next
    case (expand stmts added new addedTypes)
    with that(1) show ?thesis by (cases "queue s") simp_all
  qed
  from 1 2 3 show ?thesis by blast
qed

theorem C9_types_are_leaves_witness:
  "performRecursiveAnalysis scen_target 2 [scen_pkg] = Some (Inr (scen_all, None)) \<and>
   distinct (map fst (ReferencedTypes scen_all)) \<and>
   expansionLog 2 (projectPackages_of [scen_pkg]) (typePkgMap_of [scen_pkg])
     (initialTraversal scen_target) =
     Some [scen_task scen_declA 0, scen_task scen_declB 1, scen_task scen_declC 1,
           scen_task scen_declD 2] \<and>
   queue (initialTraversal scen_target) \<noteq> [] \<and>
   loopBody 2 (projectPackages_of [scen_pkg]) (typePkgMap_of [scen_pkg])
     (initialTraversal scen_target) = Inr scen_afterA \<and>
   Suc (length (queue scen_afterA) + length (allCalledFuncs (initialTraversal scen_target)))
   \<le> length (queue (initialTraversal scen_target)) + length (allCalledFuncs scen_afterA)"
proof -
  have run: "performRecursiveAnalysis scen_target 2 [scen_pkg] = Some (Inr (scen_all, None))"
    by code_simp
  note C9 = C9_types_are_leaves[OF run]
  have log: "expansionLog 2 (projectPackages_of [scen_pkg]) (typePkgMap_of [scen_pkg])
     (initialTraversal scen_target) =
     Some [scen_task scen_declA 0, scen_task scen_declB 1, scen_task scen_declC 1,
           scen_task scen_declD 2]"
    by code_simp
  have q: "queue (initialTraversal scen_target) \<noteq> []"
    by (simp add: initialTraversal_def)
  have b: "loopBody 2 (projectPackages_of [scen_pkg]) (typePkgMap_of [scen_pkg])
     (initialTraversal scen_target) = Inr scen_afterA"
    by code_simp
  show ?thesis
    by (intro conjI)
       (fact run C9[THEN conjunct1] log q b
          C9[THEN conjunct2, THEN conjunct2, rule_format, OF q b])+
qed

text \<open>
  C8 (as amended). Let the traversal return. Let \<open>f\<close> and \<open>g\<close> be callables with the same
  local name, referred to in bodies the traversal expands, each a package-level
  function or a method whose receiver is a named type, of packages with different
  paths. Then \<open>f\<close> and \<open>g\<close> have different fully qualified names, and each of the two
  names has exactly one entry of its own in the callable result set. Independently of
  this, let \<open>t\<close> and \<open>u\<close> be types with the same local name of packages with different
  paths, referred to in expanded bodies: they have different keys, and each key has
  exactly one entry of its own in the type result set. Tasks that are expanded for
  two such callables have different identities, both of which are in the visited set
  at the end. Methods of interface types that are not named are excepted: all of them
  with the same local name share one full name, whatever their package.
\<close>

theorem C8_name_collision:
  assumes run: "performRecursiveAnalysis target depth pkgs = Some (Inr (res, err))"
    and log: "expansionLog depth (projectPackages_of pkgs) (typePkgMap_of pkgs)
                (initialTraversal target) = Some log"
  shows "(\<forall>x bx f pf y by g pg.
            x \<in> set log \<longrightarrow> Body (Fn (Target x)) = Some bx \<longrightarrow>
            f \<in> set (directCallables (TypesInfo (Pkg (Target x))) (projectPackages_of pkgs) bx) \<longrightarrow>
            y \<in> set log \<longrightarrow> Body (Fn (Target y)) = Some by \<longrightarrow>
            g \<in> set (directCallables (TypesInfo (Pkg (Target y))) (projectPackages_of pkgs) by) \<longrightarrow>
            f_Name f = f_Name g \<longrightarrow> qualifiedBy f pf \<longrightarrow> qualifiedBy g pg \<longrightarrow>
            Path pf \<noteq> Path pg \<longrightarrow>
            FullName f \<noteq> FullName g \<and>
            occurrences (FullName f) (CalledFuncs res) = 1 \<and>
            occurrences (FullName g) (CalledFuncs res) = 1 \<and>
            (\<exists>f'. map_of (CalledFuncs res) (FullName f) = Some f' \<and>
                   FullName f' = FullName f) \<and>
            (\<exists>g'. map_of (CalledFuncs res) (FullName g) = Some g' \<and>
                   FullName g' = FullName g)) \<and>
         (\<forall>x bx t pt y by u pu.
            x \<in> set log \<longrightarrow> Body (Fn (Target x)) = Some bx \<longrightarrow>
            t \<in> set (directTypes (TypesInfo (Pkg (Target x))) (projectPackages_of pkgs) bx) \<longrightarrow>
            y \<in> set log \<longrightarrow> Body (Fn (Target y)) = Some by \<longrightarrow>
            u \<in> set (directTypes (TypesInfo (Pkg (Target y))) (projectPackages_of pkgs) by) \<longrightarrow>
            t_Name t = t_Name u \<longrightarrow> t_Pkg t = Some pt \<longrightarrow> t_Pkg u = Some pu \<longrightarrow>
            Path pt \<noteq> Path pu \<longrightarrow>
            typeKey t \<noteq> typeKey u \<and>
            occurrences (typeKey t) (ReferencedTypes res) = 1 \<and>
            occurrences (typeKey u) (ReferencedTypes res) = 1 \<and>
            (\<exists>t'. map_of (ReferencedTypes res) (typeKey t) = Some t' \<and>
                   typeKey (ti_Definition t') = typeKey t) \<and>
            (\<exists>u'. map_of (ReferencedTypes res) (typeKey u) = Some u' \<and>
                   typeKey (ti_Definition u') = typeKey u)) \<and>
         (\<exists>sf. runQueue depth (projectPackages_of pkgs) (typePkgMap_of pkgs)
                 (initialTraversal target) = Some (Inr sf) \<and>
               taskKey ` set log \<subseteq> processedFuncs sf \<and>
               (\<forall>a b f pf g pg.
                  a \<in> set log \<longrightarrow> b \<in> set log \<longrightarrow>
                  resolvesTo (Target a) f \<longrightarrow> resolvesTo (Target b) g \<longrightarrow>
                  f_Name f = f_Name g \<longrightarrow> qualifiedBy f pf \<longrightarrow> qualifiedBy g pg \<longrightarrow>
                  Path pf \<noteq> Path pg \<longrightarrow>
                  taskKey a \<in> processedFuncs sf \<and> taskKey b \<in> processedFuncs sf \<and>
                  taskKey a \<noteq> taskKey b))"
proof -
  let ?sc = "projectPackages_of pkgs"
  have F: "FullName f \<noteq> FullName g \<and>
            occurrences (FullName f) (CalledFuncs res) = 1 \<and>
            occurrences (FullName g) (CalledFuncs res) = 1 \<and>
            (\<exists>f'. map_of (CalledFuncs res) (FullName f) = Some f' \<and>
                   FullName f' = FullName f) \<and>
            (\<exists>g'. map_of (CalledFuncs res) (FullName g) = Some g' \<and>
                   FullName g' = FullName g)"
    if x: "x \<in> set log" "Body (Fn (Target x)) = Some bx"
      "f \<in> set (directCallables (TypesInfo (Pkg (Target x))) ?sc bx)"
      and y: "y \<in> set log" "Body (Fn (Target y)) = Some by"
      "g \<in> set (directCallables (TypesInfo (Pkg (Target y))) ?sc by)"
      and n: "f_Name f = f_Name g" and q: "qualifiedBy f pf" "qualifiedBy g pg"
      and ne: "Path pf \<noteq> Path pg"
    for x bx f pf y "by" g pg
  proof -
    have 1: "FullName f \<noteq> FullName g"
      using q n ne by (rule FullName_qualified)
    from result_complete[OF run log x(1,2)] x(3)
    have inf: "FullName f \<in> namesOf (CalledFuncs res)" by blast
    from result_complete[OF run log y(1,2)] y(3)
    have ing: "FullName g \<in> namesOf (CalledFuncs res)" by blast
    from 1 result_once[OF run log x] result_once[OF run log y]
      result_func_entry[OF run inf] result_func_entry[OF run ing]
    show ?thesis by (intro conjI)
  qed
  have T: "typeKey t \<noteq> typeKey u \<and>
            occurrences (typeKey t) (ReferencedTypes res) = 1 \<and>
            occurrences (typeKey u) (ReferencedTypes res) = 1 \<and>
            (\<exists>t'. map_of (ReferencedTypes res) (typeKey t) = Some t' \<and>
                   typeKey (ti_Definition t') = typeKey t) \<and>
            (\<exists>u'. map_of (ReferencedTypes res) (typeKey u) = Some u' \<and>
                   typeKey (ti_Definition u') = typeKey u)"
    if x: "x \<in> set log" "Body (Fn (Target x)) = Some bx"
      "t \<in> set (directTypes (TypesInfo (Pkg (Target x))) ?sc bx)"
      and y: "y \<in> set log" "Body (Fn (Target y)) = Some by"
      "u \<in> set (directTypes (TypesInfo (Pkg (Target y))) ?sc by)"
      and n: "t_Name t = t_Name u" and p: "t_Pkg t = Some pt" "t_Pkg u = Some pu"
      and ne: "Path pt \<noteq> Path pu"
    for x bx t pt y "by" u pu
  proof -
    have 1: "typeKey t \<noteq> typeKey u"
      using typeKey_collision[OF p n] ne by simp
    from result_complete[OF run log x(1,2)] x(3)
    have int: "typeKey t \<in> namesOf (ReferencedTypes res)" by blast
    from result_complete[OF run log y(1,2)] y(3)
    have inu: "typeKey u \<in> namesOf (ReferencedTypes res)" by blast
    from 1 result_type_once[OF run log x] result_type_once[OF run log y]
      result_type_entry[OF run int] result_type_entry[OF run inu]
    show ?thesis by (intro conjI)
  qed
  from run obtain sf where
    r: "runQueue depth ?sc (typePkgMap_of pkgs) (initialTraversal target) = Some (Inr sf)"
    by (rule performRecursiveAnalysis_Inr)
  from expansionLog_complete[OF r log] have vis: "taskKey ` set log \<subseteq> processedFuncs sf"
    by blast
  have keys: "taskKey a \<in> processedFuncs sf \<and> taskKey b \<in> processedFuncs sf \<and>
      taskKey a \<noteq> taskKey b"
    if "a \<in> set log" "b \<in> set log" "resolvesTo (Target a) f" "resolvesTo (Target b) g"
      "f_Name f = f_Name g" "qualifiedBy f pf" "qualifiedBy g pg" "Path pf \<noteq> Path pg"
    for a b f pf g pg
  proof -
    have "taskKey a = FullName f" "taskKey b = FullName g"
      using that(3,4) by (simp_all add: taskKey_resolvesTo)
    moreover have "FullName f \<noteq> FullName g"
      using that(6,7,5,8) by (rule FullName_qualified)
    ultimately show ?thesis using vis that(1,2) by auto
  qed
  have cF: "\<forall>x bx f pf y by g pg.
            x \<in> set log \<longrightarrow> Body (Fn (Target x)) = Some bx \<longrightarrow>
            f \<in> set (directCallables (TypesInfo (Pkg (Target x))) ?sc bx) \<longrightarrow>
            y \<in> set log \<longrightarrow> Body (Fn (Target y)) = Some by \<longrightarrow>
            g \<in> set (directCallables (TypesInfo (Pkg (Target y))) ?sc by) \<longrightarrow>
            f_Name f = f_Name g \<longrightarrow> qualifiedBy f pf \<longrightarrow> qualifiedBy g pg \<longrightarrow>
            Path pf \<noteq> Path pg \<longrightarrow>
            FullName f \<noteq> FullName g \<and>
            occurrences (FullName f) (CalledFuncs res) = 1 \<and>
            occurrences (FullName g) (CalledFuncs res) = 1 \<and>
            (\<exists>f'. map_of (CalledFuncs res) (FullName f) = Some f' \<and>
                   FullName f' = FullName f) \<and>
            (\<exists>g'. map_of (CalledFuncs res) (FullName g) = Some g' \<and>
                   FullName g' = FullName g)"
    using F by blast
  have cT: "\<forall>x bx t pt y by u pu.
            x \<in> set log \<longrightarrow> Body (Fn (Target x)) = Some bx \<longrightarrow>
            t \<in> set (directTypes (TypesInfo (Pkg (Target x))) ?sc bx) \<longrightarrow>
            y \<in> set log \<longrightarrow> Body (Fn (Target y)) = Some by \<longrightarrow>
            u \<in> set (directTypes (TypesInfo (Pkg (Target y))) ?sc by) \<longrightarrow>
            t_Name t = t_Name u \<longrightarrow> t_Pkg t = Some pt \<longrightarrow> t_Pkg u = Some pu \<longrightarrow>
            Path pt \<noteq> Path pu \<longrightarrow>
            typeKey t \<noteq> typeKey u \<and>
            occurrences (typeKey t) (ReferencedTypes res) = 1 \<and>
            occurrences (typeKey u) (ReferencedTypes res) = 1 \<and>
            (\<exists>t'. map_of (ReferencedTypes res) (typeKey t) = Some t' \<and>
                   typeKey (ti_Definition t') = typeKey t) \<and>
            (\<exists>u'. map_of (ReferencedTypes res) (typeKey u) = Some u' \<and>
                   typeKey (ti_Definition u') = typeKey u)"
    using T by blast
  from r vis keys have cV: "\<exists>sf. runQueue depth ?sc (typePkgMap_of pkgs)
                 (initialTraversal target) = Some (Inr sf) \<and>
               taskKey ` set log \<subseteq> processedFuncs sf \<and>
               (\<forall>a b f pf g pg.
                  a \<in> set log \<longrightarrow> b \<in> set log \<longrightarrow>
                  resolvesTo (Target a) f \<longrightarrow> resolvesTo (Target b) g \<longrightarrow>
                  f_Name f = f_Name g \<longrightarrow> qualifiedBy f pf \<longrightarrow> qualifiedBy g pg \<longrightarrow>
                  Path pf \<noteq> Path pg \<longrightarrow>
                  taskKey a \<in> processedFuncs sf \<and> taskKey b \<in> processedFuncs sf \<and>
                  taskKey a \<noteq> taskKey b)"
    by blast
  show ?thesis
    by (intro conjI) (fact cF cT cV)+
qed

theorem C8_name_collision_witness:
  "performRecursiveAnalysis mth_target 1 mth_pkgs = Some (Inr (mth_result, None)) \<and>
   expansionLog 1 (projectPackages_of mth_pkgs) (typePkgMap_of mth_pkgs)
     (initialTraversal mth_target) = Some mth_log \<and>
   directCallables (TypesInfo (Pkg (Target mth_taskMain))) (projectPackages_of mth_pkgs)
     mth_bodyMain = [mth_RunA, mth_RunB, mth_DoA, mth_DoB] \<and>
   directTypes (TypesInfo (Pkg (Target mth_taskMain))) (projectPackages_of mth_pkgs)
     mth_bodyMain = [] \<and>
   qualifiedBy mth_RunA mth_typesA \<and> qualifiedBy mth_RunB mth_typesB \<and>
   qualifiedBy mth_DoA mth_typesA \<and> qualifiedBy mth_DoB mth_typesB \<and>
   Path mth_typesA \<noteq> Path mth_typesB \<and>
   FullName mth_RunA \<noteq> FullName mth_RunB \<and>
   occurrences (FullName mth_RunA) (CalledFuncs mth_result) = 1 \<and>
   occurrences (FullName mth_RunB) (CalledFuncs mth_result) = 1 \<and>
   FullName mth_DoA \<noteq> FullName mth_DoB \<and>
   occurrences (FullName mth_DoA) (CalledFuncs mth_result) = 1 \<and>
   occurrences (FullName mth_DoB) (CalledFuncs mth_result) = 1 \<and>
   runQueue 1 (projectPackages_of mth_pkgs) (typePkgMap_of mth_pkgs)
     (initialTraversal mth_target) = Some (Inr mth_final) \<and>
   taskKey (mth_task mth_pkgA mth_declDoA) \<in> processedFuncs mth_final \<and>
   taskKey (mth_task mth_pkgB mth_declDoB) \<in> processedFuncs mth_final \<and>
   taskKey (mth_task mth_pkgA mth_declDoA) \<noteq> taskKey (mth_task mth_pkgB mth_declDoB) \<and>
   performRecursiveAnalysis col_target 1 col_pkgs = Some (Inr (col_result, None)) \<and>
   directTypes (TypesInfo (Pkg (Target col_taskMain))) (projectPackages_of col_pkgs)
     col_bodyMain = [col_ConfA, col_ConfB] \<and>
   t_Name col_ConfA = t_Name col_ConfB \<and> Path col_typesA \<noteq> Path col_typesB \<and>
   typeKey col_ConfA \<noteq> typeKey col_ConfB \<and>
   occurrences (typeKey col_ConfA) (ReferencedTypes col_result) = 1 \<and>
   occurrences (typeKey col_ConfB) (ReferencedTypes col_result) = 1"
proof -
  let ?sc = "projectPackages_of mth_pkgs"
  have run: "performRecursiveAnalysis mth_target 1 mth_pkgs = Some (Inr (mth_result, None))"
    by code_simp
  have log: "expansionLog 1 ?sc (typePkgMap_of mth_pkgs) (initialTraversal mth_target) =
             Some mth_log"
    by code_simp
  have fin: "runQueue 1 ?sc (typePkgMap_of mth_pkgs) (initialTraversal mth_target) =
             Some (Inr mth_final)"
    by code_simp
  have dc: "directCallables (TypesInfo (Pkg (Target mth_taskMain))) ?sc mth_bodyMain =
            [mth_RunA, mth_RunB, mth_DoA, mth_DoB]"
    by code_simp
  have dt: "directTypes (TypesInfo (Pkg (Target mth_taskMain))) ?sc mth_bodyMain = []"
    by code_simp
  have xin: "mth_taskMain \<in> set mth_log"
    and ain: "mth_task mth_pkgA mth_declDoA \<in> set mth_log"
    and bin: "mth_task mth_pkgB mth_declDoB \<in> set mth_log"
    by (simp_all add: mth_log_def)
  have body: "Body (Fn (Target mth_taskMain)) = Some mth_bodyMain"
    by (simp add: mth_taskMain_def mth_target_def mth_declMain_def)
  have refs: "mth_RunA \<in> set (directCallables (TypesInfo (Pkg (Target mth_taskMain)))
                 ?sc mth_bodyMain)"
    "mth_RunB \<in> set (directCallables (TypesInfo (Pkg (Target mth_taskMain))) ?sc mth_bodyMain)"
    "mth_DoA \<in> set (directCallables (TypesInfo (Pkg (Target mth_taskMain))) ?sc mth_bodyMain)"
    "mth_DoB \<in> set (directCallables (TypesInfo (Pkg (Target mth_taskMain))) ?sc mth_bodyMain)"
    unfolding dc by simp_all
  have nr: "f_Name mth_RunA = f_Name mth_RunB"
    by (simp add: mth_RunA_def mth_RunB_def)
  have nd: "f_Name mth_DoA = f_Name mth_DoB"
    by (simp add: mth_DoA_def mth_DoB_def)
  have q: "qualifiedBy mth_RunA mth_typesA" "qualifiedBy mth_RunB mth_typesB"
    "qualifiedBy mth_DoA mth_typesA" "qualifiedBy mth_DoB mth_typesB"
    by code_simp+
  have ne: "Path mth_typesA \<noteq> Path mth_typesB"
    by (simp add: mth_typesA_def mth_typesB_def)
  note C8 = C8_name_collision[OF run log]
  note funcs = C8[THEN conjunct1, rule_format]
  note run_pair = funcs[OF xin body refs(1) xin body refs(2) nr q(1,2) ne]
  note do_pair = funcs[OF xin body refs(3) xin body refs(4) nd q(3,4) ne]
  from C8[THEN conjunct2, THEN conjunct2] obtain sf where
    sf: "runQueue 1 ?sc (typePkgMap_of mth_pkgs) (initialTraversal mth_target) =
           Some (Inr sf)" and
    keys: "\<forall>a b f pf g pg.
             a \<in> set mth_log \<longrightarrow> b \<in> set mth_log \<longrightarrow>
             resolvesTo (Target a) f \<longrightarrow> resolvesTo (Target b) g \<longrightarrow>
             f_Name f = f_Name g \<longrightarrow> qualifiedBy f pf \<longrightarrow> qualifiedBy g pg \<longrightarrow>
             Path pf \<noteq> Path pg \<longrightarrow>
             taskKey a \<in> processedFuncs sf \<and> taskKey b \<in> processedFuncs sf \<and>
             taskKey a \<noteq> taskKey b"
    by (elim exE conjE) (rule that; assumption)
  from sf fin have sf_eq: "sf = mth_final" by simp
  have oa: "resolvesTo (Target (mth_task mth_pkgA mth_declDoA)) mth_DoA"
    by code_simp
  have ob: "resolvesTo (Target (mth_task mth_pkgB mth_declDoB)) mth_DoB"
    by code_simp
  note k = keys[rule_format, OF ain bin oa ob nd q(3,4) ne, unfolded sf_eq]
  have crun: "performRecursiveAnalysis col_target 1 col_pkgs = Some (Inr (col_result, None))"
    by code_simp
  have clog: "expansionLog 1 (projectPackages_of col_pkgs) (typePkgMap_of col_pkgs)
     (initialTraversal col_target) = Some [col_taskMain, col_taskA, col_taskB]"
    by code_simp
  have cdt: "directTypes (TypesInfo (Pkg (Target col_taskMain)))
      (projectPackages_of col_pkgs) col_bodyMain = [col_ConfA, col_ConfB]"
    by code_simp
  have cxin: "col_taskMain \<in> set [col_taskMain, col_taskA, col_taskB]"
    by simp
  have cbody: "Body (Fn (Target col_taskMain)) = Some col_bodyMain"
    by (simp add: col_taskMain_def col_target_def col_declMain_def)
  have trefs: "col_ConfA \<in> set (directTypes (TypesInfo (Pkg (Target col_taskMain)))
                  (projectPackages_of col_pkgs) col_bodyMain)"
    "col_ConfB \<in> set (directTypes (TypesInfo (Pkg (Target col_taskMain)))
                  (projectPackages_of col_pkgs) col_bodyMain)"
    unfolding cdt by simp_all
  have ts: "t_Name col_ConfA = t_Name col_ConfB" "t_Pkg col_ConfA = Some col_typesA"
    "t_Pkg col_ConfB = Some col_typesB"
    by (simp_all add: col_ConfA_def col_ConfB_def)
  have cne: "Path col_typesA \<noteq> Path col_typesB"
    by (simp add: col_typesA_def col_typesB_def)
  note types = C8_name_collision[OF crun clog, THEN conjunct2, THEN conjunct1, rule_format,
      OF cxin cbody trefs(1) cxin cbody trefs(2) ts cne]
  show ?thesis
    by (intro conjI)
       (fact run log dc dt q ne run_pair[THEN conjunct1]
          run_pair[THEN conjunct2, THEN conjunct1]
          run_pair[THEN conjunct2, THEN conjunct2, THEN conjunct1]
          do_pair[THEN conjunct1] do_pair[THEN conjunct2, THEN conjunct1]
          do_pair[THEN conjunct2, THEN conjunct2, THEN conjunct1]
          fin k[THEN conjunct1] k[THEN conjunct2, THEN conjunct1]
          k[THEN conjunct2, THEN conjunct2]
          crun cdt ts(1) cne types[THEN conjunct1] types[THEN conjunct2, THEN conjunct1]
          types[THEN conjunct2, THEN conjunct2, THEN conjunct1])+
qed

text \<open>
  C8 as stated fails for methods of interface types that are not named: \<open>Main\<close> calls
  the method \<open>Run\<close> of \<open>a.X\<close> and the method \<open>Run\<close> of \<open>b.Y\<close>, two different functions of
  packages with different paths. Both have the full name \<open>(interface).Run\<close>, and the
  callable result set holds one entry under this name, for the method of package \<open>a\<close>;
  the method of package \<open>b\<close> is dropped.
\<close>

theorem C8_interface_method_counterexample:
  "performRecursiveAnalysis ifc_target 1 ifc_pkgs = Some (Inr (ifc_result, None)) \<and>
   Body (Fn ifc_target) = Some ifc_bodyMain \<and>
   directCallables (TypesInfo (Pkg ifc_target)) (projectPackages_of ifc_pkgs) ifc_bodyMain =
     [ifc_RunA, ifc_RunB] \<and>
   f_Name ifc_RunA = f_Name ifc_RunB \<and>
   f_Pkg ifc_RunA = Some ifc_typesA \<and> f_Pkg ifc_RunB = Some ifc_typesB \<and>
   Path ifc_typesA \<noteq> Path ifc_typesB \<and> ifc_RunA \<noteq> ifc_RunB \<and>
   FullName ifc_RunA = ''(interface).Run'' \<and> FullName ifc_RunB = ''(interface).Run'' \<and>
   CalledFuncs ifc_result = [(''(interface).Run'', ifc_RunA)] \<and>
   length (CalledFuncs ifc_result) = 1 \<and>
   ifc_RunB \<notin> snd ` set (CalledFuncs ifc_result)"
proof -
  have r: "performRecursiveAnalysis ifc_target 1 ifc_pkgs = Some (Inr (ifc_result, None))"
    by code_simp
  have b: "Body (Fn ifc_target) = Some ifc_bodyMain"
    by (simp add: ifc_target_def ifc_declMain_def)
  have dc: "directCallables (TypesInfo (Pkg ifc_target)) (projectPackages_of ifc_pkgs)
              ifc_bodyMain = [ifc_RunA, ifc_RunB]"
    by code_simp
  have n: "f_Name ifc_RunA = f_Name ifc_RunB"
    by (simp add: ifc_RunA_def ifc_RunB_def)
  have pa: "f_Pkg ifc_RunA = Some ifc_typesA" and pb: "f_Pkg ifc_RunB = Some ifc_typesB"
    by (simp_all add: ifc_RunA_def ifc_RunB_def)
  have ne: "Path ifc_typesA \<noteq> Path ifc_typesB"
    by (simp add: ifc_typesA_def ifc_typesB_def)
  have d: "ifc_RunA \<noteq> ifc_RunB"
    by (simp add: ifc_RunA_def ifc_RunB_def)
  have fa: "FullName ifc_RunA = ''(interface).Run''"
    and fb: "FullName ifc_RunB = ''(interface).Run''"
    by (simp_all add: FullName_def ifc_RunA_def ifc_RunB_def)
  have c: "CalledFuncs ifc_result = [(''(interface).Run'', ifc_RunA)]"
    by (simp add: ifc_result_def)
  have l: "length (CalledFuncs ifc_result) = 1"
    by (simp add: ifc_result_def)
  have m: "ifc_RunB \<notin> snd ` set (CalledFuncs ifc_result)"
    using d by (simp add: ifc_result_def)
  show ?thesis
    by (intro conjI) (fact r b dc n pa pb ne d fa fb c l m)+
qed
end
